theory Spec2Isabelle
  imports Complex_Main
begin

section \<open>Modelling conventions\<close>

text \<open>
  The development embeds the C sources \<^verbatim>\<open>cognitive-tensors.c\<close> and
  \<^verbatim>\<open>opencog-ggml-bridge.c\<close> of the agent-zero component.

  \<^item> A C \<^verbatim>\<open>float\<close> or \<^verbatim>\<open>double\<close> is modelled by the real number it denotes.
    Comparisons and the algebraic shape of every formula are kept as the source
    writes them. The elementwise operations (\<^verbatim>\<open>ggml_mul\<close>, \<^verbatim>\<open>ggml_add\<close> and their AVX
    variants) and \<^verbatim>\<open>cognitive_attention_matrix\<close> round the result of every
    operation to single precision, by the function \<open>to_float\<close>; the other
    functions compute with exact real arithmetic. The infinities and NaN are
    part of the model for the weight that \<^verbatim>\<open>update_kernel_attention\<close> receives, and
    nowhere else.
  \<^item> A C \<^verbatim>\<open>int\<close> is an \<^typ>\<open>int\<close>, a \<^verbatim>\<open>size_t\<close> a \<^typ>\<open>nat\<close>. The extents of a tensor
    that exists are taken to be small enough that the C arithmetic on them does
    not overflow. The conversion of the node count of a hypergraph to \<^verbatim>\<open>int\<close> and
    the product of the converted counts, in \<^verbatim>\<open>encode_hypergraph_to_tensor\<close>, are
    modelled with their 32-bit range.
  \<^item> A pointer that may be \<^verbatim>\<open>NULL\<close> is an \<^typ>\<open>'a option\<close>; a buffer is the list of
    its elements. Mutation through a pointer is explicit state passing: the
    function returns the updated object.
  \<^item> Undefined behaviour of the C program (dereferencing \<^verbatim>\<open>NULL\<close>, indexing outside
    a buffer, using freed memory, overflow of a signed product) is a value of
    type \<open>fault\<close>: a function of the model returns \<open>fault + 'a\<close>, with \<open>Inl\<close> for
    the fault.
  \<^item> \<^verbatim>\<open>malloc\<close> and \<^verbatim>\<open>calloc\<close> are taken to succeed whenever the requested size is
    a sensible one; the system allocator is an explicit parameter only for the
    tensor memory pool, whose fallback path depends on it.
  \<^item> The values that \<^verbatim>\<open>rand()\<close> returns are an explicit input of the functions that
    call it.
  \<^item> A function argument that the body never uses (the \<^verbatim>\<open>ggml_context\<close> pointer) is
    dropped.
\<close>

datatype fault = Null_Deref | Out_Of_Bounds | Use_After_Free | Signed_Overflow

definition bindf :: "fault + 'a \<Rightarrow> ('a \<Rightarrow> fault + 'b) \<Rightarrow> fault + 'b" where
  "bindf m f = (case m of Inl e \<Rightarrow> Inl e | Inr x \<Rightarrow> f x)"

text \<open>Reading and writing element \<open>i\<close> of the buffer a pointer refers to.\<close>

definition rdp :: "'a list option \<Rightarrow> nat \<Rightarrow> fault + 'a" where
  "rdp p i = (case p of None \<Rightarrow> Inl Null_Deref
              | Some xs \<Rightarrow> if i < length xs then Inr (xs ! i) else Inl Out_Of_Bounds)"

definition wrp :: "'a list option \<Rightarrow> nat \<Rightarrow> 'a \<Rightarrow> fault + 'a list option" where
  "wrp p i v = (case p of None \<Rightarrow> Inl Null_Deref
                | Some xs \<Rightarrow> if i < length xs then Inr (Some (xs[i := v])) else Inl Out_Of_Bounds)"

text \<open>
  The loop \<^verbatim>\<open>for (k = i; k < n; k++) body\<close> over a state \<open>s\<close>; it stops at the
  first fault.
\<close>

function for_upto :: "nat \<Rightarrow> nat \<Rightarrow> (nat \<Rightarrow> 's \<Rightarrow> fault + 's) \<Rightarrow> 's \<Rightarrow> fault + 's" where
  "for_upto i n body s =
     (if i < n then (case body i s of Inl e \<Rightarrow> Inl e | Inr s' \<Rightarrow> for_upto (Suc i) n body s')
      else Inr s)"
  by pat_completeness auto
termination
  by (relation "measure (\<lambda>(i, n, body, s). n - i)") auto

declare for_upto.simps [simp del]

section \<open>Tensors (cognitive-tensors.c)\<close>

text \<open>
  \<^verbatim>\<open>struct ggml_tensor\<close>: the four extents \<^verbatim>\<open>ne[0..3]\<close>, the data pointer and the type
  tag. The stride array \<^verbatim>\<open>nb\<close> is never written nor read by the sources and is left
  out.
\<close>

record ggml_tensor =
  ne0 :: int
  ne1 :: int
  ne2 :: int
  ne3 :: int
  data :: "real list option"
  type :: int

text \<open>
  \<^verbatim>\<open>calloc(n, sizeof(float))\<close> for an \<^verbatim>\<open>int\<close> count \<open>n\<close>: a negative count converts to
  a \<^verbatim>\<open>size_t\<close> so large that the allocation fails; otherwise the buffer holds \<open>n\<close>
  zeros.
\<close>

definition calloc_float :: "int \<Rightarrow> real list option" where
  "calloc_float n = (if n < 0 then None else Some (replicate (nat n) 0))"

text \<open>\<^verbatim>\<open>ggml_new_tensor_2d\<close>; the context argument is never used.\<close>

definition ggml_new_tensor_2d :: "int \<Rightarrow> int \<Rightarrow> int \<Rightarrow> ggml_tensor option" where
  "ggml_new_tensor_2d ty n0 n1 =
     (case calloc_float (n0 * n1) of
        None \<Rightarrow> None
      | Some d \<Rightarrow> Some \<lparr>ne0 = n0, ne1 = n1, ne2 = 1, ne3 = 1, data = Some d, type = ty\<rparr>)"

text \<open>
  The product \<^verbatim>\<open>ne0 * ne1\<close> in \<^verbatim>\<open>ggml_new_tensor_2d\<close> is a product of two 32-bit
  \<^verbatim>\<open>int\<close>s, and its overflow is undefined behaviour. Where the two extents are
  those of a tensor that exists, the product is the size of its buffer; where
  they are the number of atoms of a store, the capacity of the store, 1000,
  bounds them. Where they are converted from the node count of a hypergraph,
  as in \<^verbatim>\<open>encode_hypergraph_to_tensor\<close>, the product can overflow, and the call
  is modelled by \<open>ggml_new_tensor_2d_checked\<close>: \<open>ggml_new_tensor_2d\<close> with the
  overflow of the product as a fault.
\<close>

definition int_in_range :: "int \<Rightarrow> bool" where
  "int_in_range x = (- (2 ^ 31) \<le> x \<and> x < 2 ^ 31)"

definition ggml_new_tensor_2d_checked :: "int \<Rightarrow> int \<Rightarrow> int \<Rightarrow> fault + ggml_tensor option" where
  "ggml_new_tensor_2d_checked ty n0 n1 =
     (if int_in_range (n0 * n1) then Inr (ggml_new_tensor_2d ty n0 n1) else Inl Signed_Overflow)"

text \<open>
  A tensor as \<^verbatim>\<open>ggml_new_tensor_2d\<close> makes it: two effective dimensions and a
  buffer of \<open>ne0 * ne1\<close> elements.
\<close>

definition wf_tensor :: "ggml_tensor \<Rightarrow> bool" where
  "wf_tensor t =
     (0 \<le> ne0 t \<and> 0 \<le> ne1 t \<and> ne2 t = 1 \<and> ne3 t = 1 \<and>
      (case data t of None \<Rightarrow> False | Some xs \<Rightarrow> length xs = nat (ne0 t * ne1 t)))"

section \<open>Cognitive kernels (cognitive-tensors.c)\<close>

text \<open>
  The weight of a kernel is whatever \<^verbatim>\<open>float\<close> the caller passes, so its type has the
  special values of the format beside the numbers: the two infinities and NaN.
\<close>

datatype c_float = Num real | Pos_Inf | Neg_Inf | NaN

text \<open>
  The C comparison \<^verbatim>\<open>x < y\<close> of two floats; \<^verbatim>\<open>x > y\<close> is \<open>float_less y x\<close>. A
  comparison with a NaN operand is false.
\<close>

fun float_less :: "c_float \<Rightarrow> c_float \<Rightarrow> bool" where
  "float_less (Num x) (Num y) = (x < y)"
| "float_less (Num x) Pos_Inf = True"
| "float_less Neg_Inf (Num y) = True"
| "float_less Neg_Inf Pos_Inf = True"
| "float_less x y = False"

record cognitive_kernel_t =
  tensor_field :: "ggml_tensor option"
  attention_weight :: c_float
  meta_level :: int
  kernel_id :: nat

text \<open>
  \<^verbatim>\<open>update_kernel_attention\<close>: the returned pair is the C return value and the
  kernel after the call.
\<close>

definition update_kernel_attention ::
  "cognitive_kernel_t option \<Rightarrow> c_float \<Rightarrow> int \<times> cognitive_kernel_t option" where
  "update_kernel_attention kern new_weight =
     (case kern of
        None \<Rightarrow> (- 1, None)
      | Some k \<Rightarrow>
          if float_less new_weight (Num 0) \<or> float_less (Num 1) new_weight then (- 1, Some k)
          else (0, Some (k\<lparr>attention_weight := new_weight\<rparr>)))"

text \<open>
  The interval \<open>[0, 1]\<close> of the specification: the numbers from 0 to 1. An
  infinity or a NaN is not in it.
\<close>

definition in_unit_interval :: "c_float \<Rightarrow> bool" where
  "in_unit_interval w = (case w of Num x \<Rightarrow> 0 \<le> x \<and> x \<le> 1 | Pos_Inf \<Rightarrow> False
                         | Neg_Inf \<Rightarrow> False | NaN \<Rightarrow> False)"

section \<open>Elementwise operations and transforms (cognitive-tensors.c)\<close>

text \<open>
  Single precision. The numbers of the format have 24 significant bits and
  exponents from \<open>-126\<close>, with the subnormal numbers at the low end. The nearest
  integer to \<open>y\<close>, a tie going to the even one:
\<close>

definition round_even :: "real \<Rightarrow> int" where
  "round_even y =
     (let f = \<lfloor>y\<rfloor> in
      if y - of_int f < 1 / 2 then f
      else if 1 / 2 < y - of_int f then f + 1
      else if even f then f else f + 1)"

text \<open>The exponent of the last significant bit of a float near \<open>x\<close>.\<close>

definition ulp_exponent :: "real \<Rightarrow> int" where
  "ulp_exponent x = max \<lfloor>log 2 \<bar>x\<bar>\<rfloor> (- 126) - 23"

text \<open>
  The float nearest to \<open>x\<close>. A result beyond the largest float, which the
  hardware turns into an infinity, is outside the model.
\<close>

definition to_float :: "real \<Rightarrow> real" where
  "to_float x =
     (if x = 0 then 0
      else of_int (round_even (x / 2 powr of_int (ulp_exponent x))) * 2 powr of_int (ulp_exponent x))"

text \<open>The product and the sum of two floats, as a float.\<close>

definition fmul :: "real \<Rightarrow> real \<Rightarrow> real" where
  "fmul x y = to_float (x * y)"

definition fadd :: "real \<Rightarrow> real \<Rightarrow> real" where
  "fadd x y = to_float (x + y)"

text \<open>
  \<^verbatim>\<open>ggml_mul\<close> and \<^verbatim>\<open>ggml_add\<close>: \<open>Inr None\<close> is the \<^verbatim>\<open>NULL\<close> result. Only the pointers
  are tested; the extents of \<open>b\<close> are never read, and the loop runs over the
  \<open>ne0 * ne1\<close> cells of \<open>a\<close>.
\<close>

definition ggml_mul :: "ggml_tensor option \<Rightarrow> ggml_tensor option \<Rightarrow> fault + ggml_tensor option" where
  "ggml_mul a b =
     (case a of None \<Rightarrow> Inr None | Some ta \<Rightarrow>
      (case b of None \<Rightarrow> Inr None | Some tb \<Rightarrow>
         if data ta = None \<or> data tb = None then Inr None
         else
           (case ggml_new_tensor_2d 0 (ne0 ta) (ne1 ta) of
              None \<Rightarrow> Inr None
            | Some result \<Rightarrow>
                bindf (for_upto 0 (nat (ne0 ta * ne1 ta))
                         (\<lambda>i result_data.
                            bindf (rdp (data ta) i) (\<lambda>x.
                            bindf (rdp (data tb) i) (\<lambda>y.
                            wrp result_data i (fmul x y))))
                         (data result))
                  (\<lambda>result_data. Inr (Some (result\<lparr>data := result_data\<rparr>))))))"

definition ggml_add :: "ggml_tensor option \<Rightarrow> ggml_tensor option \<Rightarrow> fault + ggml_tensor option" where
  "ggml_add a b =
     (case a of None \<Rightarrow> Inr None | Some ta \<Rightarrow>
      (case b of None \<Rightarrow> Inr None | Some tb \<Rightarrow>
         if data ta = None \<or> data tb = None then Inr None
         else
           (case ggml_new_tensor_2d 0 (ne0 ta) (ne1 ta) of
              None \<Rightarrow> Inr None
            | Some result \<Rightarrow>
                bindf (for_upto 0 (nat (ne0 ta * ne1 ta))
                         (\<lambda>i result_data.
                            bindf (rdp (data ta) i) (\<lambda>x.
                            bindf (rdp (data tb) i) (\<lambda>y.
                            wrp result_data i (fadd x y))))
                         (data result))
                  (\<lambda>result_data. Inr (Some (result\<lparr>data := result_data\<rparr>))))))"

text \<open>
  \<^verbatim>\<open>cognitive_attention_matrix\<close>. Neither \<open>input\<close> nor the freshly allocated
  \<open>attention\<close> tensor is tested against \<^verbatim>\<open>NULL\<close> before it is dereferenced. The
  expression \<^verbatim>\<open>attention_weight * (1.0f + 0.1f * sinf(i * 0.1f))\<close> is evaluated in
  single precision: the constant \<^verbatim>\<open>0.1f\<close> is the float nearest to \<open>0.1\<close>, the index
  is converted to a float, and every product and sum is rounded. The sine of
  the C library, \<^verbatim>\<open>sinf\<close>, is an input of the model.
\<close>

definition cognitive_attention_matrix ::
  "(real \<Rightarrow> real) \<Rightarrow> ggml_tensor option \<Rightarrow> real \<Rightarrow> fault + ggml_tensor option" where
  "cognitive_attention_matrix sinf input attn_weight =
     (case input of None \<Rightarrow> Inl Null_Deref | Some inp \<Rightarrow>
      (case ggml_new_tensor_2d 0 (ne0 inp) (ne1 inp) of
         None \<Rightarrow> Inl Null_Deref
       | Some attention \<Rightarrow>
           bindf (for_upto 0 (nat (ne0 inp * ne1 inp))
                    (\<lambda>i attention_data.
                       wrp attention_data i
                         (fmul attn_weight
                            (fadd 1 (fmul (to_float 0.1)
                               (sinf (fmul (to_float (real i)) (to_float 0.1)))))))
                    (data attention))
             (\<lambda>attention_data. ggml_mul (Some inp) (Some (attention\<lparr>data := attention_data\<rparr>)))))"

text \<open>A sine in single precision that rounds correctly.\<close>

definition sinf_rounded :: "real \<Rightarrow> real" where
  "sinf_rounded x = to_float (sin x)"

text \<open>\<^verbatim>\<open>meta_cognitive_transform\<close>, with the same unguarded dereferences.\<close>

definition meta_cognitive_transform :: "ggml_tensor option \<Rightarrow> int \<Rightarrow> fault + ggml_tensor option" where
  "meta_cognitive_transform input level =
     (case input of None \<Rightarrow> Inl Null_Deref | Some inp \<Rightarrow>
      (case ggml_new_tensor_2d 0 (ne0 inp) (ne1 inp) of
         None \<Rightarrow> Inl Null_Deref
       | Some transformed \<Rightarrow>
           (let meta_factor = 1 + real_of_int level * 0.2 in
            bindf (for_upto 0 (nat (ne0 inp * ne1 inp))
                     (\<lambda>i output_data.
                        bindf (rdp (data inp) i) (\<lambda>x.
                        wrp output_data i
                          (x * meta_factor *
                             (1 + 0.1 * sin (real_of_int (int i * level) * 0.01)))))
                     (data transformed))
              (\<lambda>output_data. Inr (Some (transformed\<lparr>data := output_data\<rparr>))))))"

text \<open>Equality of all four extents, as the specification words it.\<close>

definition same_extents :: "ggml_tensor \<Rightarrow> ggml_tensor \<Rightarrow> bool" where
  "same_extents a b = (ne0 a = ne0 b \<and> ne1 a = ne1 b \<and> ne2 a = ne2 b \<and> ne3 a = ne3 b)"

section \<open>Hypergraphs (cognitive-tensors.c)\<close>

record hypergraph_t =
  node_count :: nat
  link_count :: nat
  node_weights :: "real list option"
  link_weights :: "real list option"
  adjacency_matrix :: "int list option"

text \<open>\<^verbatim>\<open>create_hypergraph\<close>: three zero-filled arrays.\<close>

definition create_hypergraph :: "nat \<Rightarrow> nat \<Rightarrow> hypergraph_t option" where
  "create_hypergraph n l =
     Some \<lparr>node_count = n, link_count = l,
           node_weights = Some (replicate n 0),
           link_weights = Some (replicate l 0),
           adjacency_matrix = Some (replicate (n * n) 0)\<rparr>"

text \<open>A hypergraph whose arrays have the sizes \<^verbatim>\<open>create_hypergraph\<close> gives them.\<close>

definition wf_hypergraph :: "hypergraph_t \<Rightarrow> bool" where
  "wf_hypergraph h =
     ((case node_weights h of None \<Rightarrow> False | Some ws \<Rightarrow> length ws = node_count h) \<and>
      (case link_weights h of None \<Rightarrow> False | Some ls \<Rightarrow> length ls = link_count h) \<and>
      (case adjacency_matrix h of None \<Rightarrow> False
       | Some adj \<Rightarrow> length adj = node_count h * node_count h))"

text \<open>
  The conversion \<^verbatim>\<open>(int)x\<close> of a \<^verbatim>\<open>size_t\<close>: the value is reduced modulo \<open>2\<^sup>3\<^sup>2\<close> into
  the range of \<^verbatim>\<open>int\<close>.
\<close>

definition int_of_size_t :: "nat \<Rightarrow> int" where
  "int_of_size_t n = (int n + 2 ^ 31) mod 2 ^ 32 - 2 ^ 31"

text \<open>
  \<^verbatim>\<open>encode_hypergraph_to_tensor\<close>. The tensor is allocated with both extents
  \<^verbatim>\<open>(int)hg->node_count\<close>, and the pointer that comes back is dereferenced without
  a test. The loops run over the \<^verbatim>\<open>size_t\<close> node count itself.
\<close>

definition encode_hypergraph_to_tensor :: "hypergraph_t option \<Rightarrow> fault + ggml_tensor option" where
  "encode_hypergraph_to_tensor hg =
     (case hg of None \<Rightarrow> Inr None | Some h \<Rightarrow>
      bindf (ggml_new_tensor_2d_checked 0 (int_of_size_t (node_count h))
               (int_of_size_t (node_count h))) (\<lambda>r.
        case r of
          None \<Rightarrow> Inl Null_Deref
        | Some tensor \<Rightarrow>
            bindf (for_upto 0 (node_count h) (\<lambda>i.
                     for_upto 0 (node_count h) (\<lambda>j tensor_data.
                       bindf (rdp (adjacency_matrix h) (i * node_count h + j)) (\<lambda>adj_value.
                       bindf (rdp (node_weights h) i) (\<lambda>wi.
                       bindf (rdp (node_weights h) j) (\<lambda>wj.
                       (let weight_factor = (wi + wj) * 0.5 in
                        wrp tensor_data (i * node_count h + j)
                          (real_of_int adj_value * weight_factor)))))))
                     (data tensor))
              (\<lambda>tensor_data. Inr (Some (tensor\<lparr>data := tensor_data\<rparr>)))))"

text \<open>
  The conversion \<^verbatim>\<open>(size_t)x\<close> of an \<^verbatim>\<open>int\<close>: a negative value wraps around to a
  large one.
\<close>

definition size_t_of_int :: "int \<Rightarrow> nat" where
  "size_t_of_int x = nat (x mod 2 ^ 64)"

text \<open>
  The body of the inner loop of \<^verbatim>\<open>decode_tensor_to_hypergraph\<close> at row \<open>i\<close> and
  column \<open>j\<close>: the cell is read with the row stride \<^verbatim>\<open>ne[1]\<close> of the tensor and
  written with the row stride \<^verbatim>\<open>node_count\<close> of the hypergraph; the weight of node
  \<open>i\<close> is updated before the weight of node \<open>j\<close> is read.
\<close>

definition decode_cell :: "ggml_tensor \<Rightarrow> nat \<Rightarrow> nat \<Rightarrow> hypergraph_t \<Rightarrow> fault + hypergraph_t" where
  "decode_cell t i j hg =
     bindf (rdp (data t) (i * size_t_of_int (ne1 t) + j)) (\<lambda>v.
     bindf (wrp (adjacency_matrix hg) (i * node_count hg + j) (if v > 0.5 then 1 else 0)) (\<lambda>adj.
       if v > 0 then
         bindf (rdp (node_weights hg) i) (\<lambda>wi.
         bindf (wrp (node_weights hg) i ((wi + v) * 0.5)) (\<lambda>nw1.
         bindf (rdp nw1 j) (\<lambda>wj.
         bindf (wrp nw1 j ((wj + v) * 0.5)) (\<lambda>nw2.
         Inr (hg\<lparr>adjacency_matrix := adj, node_weights := nw2\<rparr>)))))
       else Inr (hg\<lparr>adjacency_matrix := adj\<rparr>)))"

text \<open>
  \<^verbatim>\<open>decode_tensor_to_hypergraph\<close>: the C return value and the hypergraph after the
  call.
\<close>

definition decode_tensor_to_hypergraph ::
  "ggml_tensor option \<Rightarrow> hypergraph_t option \<Rightarrow> fault + (int \<times> hypergraph_t option)" where
  "decode_tensor_to_hypergraph tensor hg =
     (case tensor of None \<Rightarrow> Inr (- 1, hg) | Some t \<Rightarrow>
      (case hg of None \<Rightarrow> Inr (- 1, None) | Some h \<Rightarrow>
         if data t = None then Inr (- 1, Some h)
         else
           (let min_size = (if node_count h < size_t_of_int (ne0 t) then node_count h
                            else size_t_of_int (ne0 t)) in
            bindf (for_upto 0 min_size (\<lambda>i. for_upto 0 min_size (decode_cell t i)) h)
              (\<lambda>h'. Inr (0, Some h')))))"

text \<open>
  The decoding rule in the words of the specification, on the two arrays of a
  hypergraph with \<open>n\<close> nodes: for the value \<open>v\<close> of cell \<open>(i, j)\<close>, the adjacency
  entry becomes 1 if \<open>v > 0.5\<close> and 0 otherwise, and if \<open>v > 0\<close> the weights of
  node \<open>i\<close> and then of node \<open>j\<close> are each replaced by the average of the old
  weight and \<open>v\<close>.
\<close>

definition decode_cell_spec ::
  "nat \<Rightarrow> real \<Rightarrow> nat \<Rightarrow> nat \<Rightarrow> int list \<times> real list \<Rightarrow> int list \<times> real list" where
  "decode_cell_spec n v i j s =
     (case s of (adj, ws) \<Rightarrow>
        (adj[i * n + j := (if v > 0.5 then 1 else 0)],
         if v > 0 then
           (let ws1 = ws[i := (ws ! i + v) / 2] in ws1[j := (ws1 ! j + v) / 2])
         else ws))"

text \<open>The rule applied to the first \<open>m\<close> rows and columns of the matrix \<open>cell\<close>, row by row.\<close>

definition decode_spec ::
  "nat \<Rightarrow> nat \<Rightarrow> (nat \<Rightarrow> nat \<Rightarrow> real) \<Rightarrow> int list \<times> real list \<Rightarrow> int list \<times> real list" where
  "decode_spec n m cell s =
     fold (\<lambda>i. fold (\<lambda>j. decode_cell_spec n (cell i j) i j) [0..<m]) [0..<m] s"

text \<open>The hypergraph \<open>hg\<close> with its adjacency matrix and node weights replaced.\<close>

definition with_arrays :: "hypergraph_t \<Rightarrow> int list \<times> real list \<Rightarrow> hypergraph_t" where
  "with_arrays hg s = hg\<lparr>adjacency_matrix := Some (fst s), node_weights := Some (snd s)\<rparr>"

section \<open>Pattern matching by correlation (cognitive-tensors.c)\<close>

text \<open>The loop \<^verbatim>\<open>for (k = i; k < n && c(k); k++) body\<close>.\<close>

function for_cond ::
  "nat \<Rightarrow> nat \<Rightarrow> (nat \<Rightarrow> bool) \<Rightarrow> (nat \<Rightarrow> 's \<Rightarrow> fault + 's) \<Rightarrow> 's \<Rightarrow> fault + 's" where
  "for_cond i n c body s =
     (if i < n \<and> c i
      then (case body i s of Inl e \<Rightarrow> Inl e | Inr s' \<Rightarrow> for_cond (Suc i) n c body s')
      else Inr s)"
  by pat_completeness auto
termination
  by (relation "measure (\<lambda>(i, n, c, body, s). n - i)") auto

declare for_cond.simps [simp del]

text \<open>
  \<^verbatim>\<open>cognitive_pattern_match\<close>. The two inner loops accumulate the correlation of
  the pattern with the window of the data at \<open>(i, j)\<close>; each stops at the end of
  the pattern or at the border of the data, whichever comes first.
\<close>

definition correlation_at :: "ggml_tensor \<Rightarrow> ggml_tensor \<Rightarrow> nat \<Rightarrow> nat \<Rightarrow> fault + real" where
  "correlation_at pattern d i j =
     for_cond 0 (nat (ne0 pattern)) (\<lambda>pi. int (i + pi) < ne0 d) (\<lambda>pi.
       for_cond 0 (nat (ne1 pattern)) (\<lambda>pj. int (j + pj) < ne1 d) (\<lambda>pj correlation.
         bindf (rdp (data pattern) (nat (int pi * ne1 pattern + int pj))) (\<lambda>x.
         bindf (rdp (data d) (nat (int (i + pi) * ne1 d + int (j + pj)))) (\<lambda>y.
         Inr (correlation + x * y))))) 0"

definition cognitive_pattern_match ::
  "ggml_tensor option \<Rightarrow> ggml_tensor option \<Rightarrow> fault + ggml_tensor option" where
  "cognitive_pattern_match pattern d =
     (case d of None \<Rightarrow> Inl Null_Deref | Some td \<Rightarrow>
      (case ggml_new_tensor_2d 0 (ne0 td) (ne1 td) of
         None \<Rightarrow> Inl Null_Deref
       | Some match_result \<Rightarrow>
          (case pattern of None \<Rightarrow> Inl Null_Deref | Some tp \<Rightarrow>
             bindf (for_upto 0 (nat (ne0 td)) (\<lambda>i.
                      for_upto 0 (nat (ne1 td)) (\<lambda>j result_data.
                        bindf (correlation_at tp td i j) (\<lambda>correlation.
                        wrp result_data (nat (int i * ne1 td + int j)) correlation)))
                      (data match_result))
               (\<lambda>result_data. Inr (Some (match_result\<lparr>data := result_data\<rparr>))))))"

text \<open>
  The clipped correlation in the words of the specification, for a pattern
  \<open>P\<close> of extents \<open>p0 \<times> p1\<close> and data \<open>D\<close> of extents \<open>d0 \<times> d1\<close>: the sum over the
  pattern offsets that stay inside the data.
\<close>

definition correlate_spec ::
  "nat \<Rightarrow> nat \<Rightarrow> real list \<Rightarrow> nat \<Rightarrow> nat \<Rightarrow> real list \<Rightarrow> nat \<Rightarrow> nat \<Rightarrow> real" where
  "correlate_spec p0 p1 P d0 d1 D i j =
     (\<Sum>pi \<in> {pi \<in> {..<p0}. i + pi < d0}.
        \<Sum>pj \<in> {pj \<in> {..<p1}. j + pj < d1}.
          P ! (pi * p1 + pj) * D ! ((i + pi) * d1 + (j + pj)))"

section \<open>The store of atoms (opencog-ggml-bridge.c)\<close>

text \<open>
  A pointer to a heap object that the code may free: \<open>Null\<close>, a pointer to a
  live object, or a pointer whose object has been freed.
\<close>

datatype 'a ptr = Null | Ptr 'a | Dangling

text \<open>
  \<^verbatim>\<open>TruthValue\<close>, \<^verbatim>\<open>Atom\<close> and \<^verbatim>\<open>AtomSpace\<close>. The field \<^verbatim>\<open>type\<close> of a truth value is
  never written nor read and is left out; the fields \<^verbatim>\<open>id\<close> and \<^verbatim>\<open>type\<close> of an atom
  are \<open>atom_id\<close> and \<open>atom_type\<close>.
\<close>

record TruthValue =
  mean :: real
  confidence :: real

record Atom =
  atom_id :: int
  atom_type :: int
  truth_value :: "TruthValue option"
  name :: "string option"

record AtomSpace =
  atoms :: "Atom ptr list option"
  count :: nat
  capacity :: nat

definition ATOM_TYPE_CONCEPT :: int where
  "ATOM_TYPE_CONCEPT = 1"

text \<open>\<^verbatim>\<open>create_atomspace\<close>: an array of 1000 slots, none of them in use.\<close>

definition create_atomspace :: AtomSpace where
  "create_atomspace = \<lparr>atoms = Some (replicate 1000 Null), count = 0, capacity = 1000\<rparr>"

text \<open>
  \<^verbatim>\<open>create_atom\<close>; \<open>r\<close> is the value \<^verbatim>\<open>rand()\<close> returns in this call, and the name is
  copied when it is present.
\<close>

definition create_atom :: "int \<Rightarrow> int \<Rightarrow> string option \<Rightarrow> real \<Rightarrow> real \<Rightarrow> Atom" where
  "create_atom r ty nm m c =
     \<lparr>atom_id = r mod 10000, atom_type = ty,
      truth_value = Some \<lparr>mean = m, confidence = c\<rparr>, name = nm\<rparr>"

text \<open>\<^verbatim>\<open>add_atom_to_space\<close>: a full store drops the atom.\<close>

definition add_atom_to_space :: "AtomSpace \<Rightarrow> Atom ptr \<Rightarrow> fault + AtomSpace" where
  "add_atom_to_space space atom =
     (if count space < capacity space then
        bindf (wrp (atoms space) (count space) atom) (\<lambda>arr.
        Inr (space\<lparr>atoms := arr, count := Suc (count space)\<rparr>))
      else Inr space)"

text \<open>The decimal digits of a number, as \<^verbatim>\<open>%zu\<close> prints them.\<close>

definition digit_char :: "nat \<Rightarrow> char" where
  "digit_char d = ''0123456789'' ! d"

fun string_of_nat :: "nat \<Rightarrow> string" where
  "string_of_nat n =
     (let last_digit = [digit_char (n mod 10)] in
      if 10 \<le> n then string_of_nat (n div 10) @ last_digit else last_digit)"

declare string_of_nat.simps [simp del]

text \<open>
  \<^verbatim>\<open>tensor_to_atomspace\<close>. The first loop frees every atom in use and leaves its
  slot dangling; the second creates an atom for each significant cell. \<open>rnd k\<close>
  is the value of the \<open>k\<close>-th call of \<^verbatim>\<open>rand()\<close> during the run.
\<close>

definition free_atom_slot :: "nat \<Rightarrow> Atom ptr list option \<Rightarrow> fault + Atom ptr list option" where
  "free_atom_slot i arr =
     bindf (rdp arr i) (\<lambda>p.
       case p of Null \<Rightarrow> Inr arr
       | Ptr a \<Rightarrow> wrp arr i Dangling
       | Dangling \<Rightarrow> Inl Use_After_Free)"

definition atom_from_cell ::
  "(nat \<Rightarrow> int) \<Rightarrow> ggml_tensor \<Rightarrow> nat \<Rightarrow> AtomSpace \<times> nat \<Rightarrow> fault + AtomSpace \<times> nat" where
  "atom_from_cell rnd t i s =
     (case s of (space, k) \<Rightarrow>
        bindf (rdp (data t) i) (\<lambda>v.
          if v > 0.01 then
            bindf (add_atom_to_space space
                     (Ptr (create_atom (rnd k) ATOM_TYPE_CONCEPT
                             (Some (''concept_'' @ string_of_nat i)) v 0.8)))
              (\<lambda>space'. Inr (space', Suc k))
          else Inr (space, k)))"

definition tensor_to_atomspace ::
  "(nat \<Rightarrow> int) \<Rightarrow> ggml_tensor option \<Rightarrow> AtomSpace option \<Rightarrow> fault + AtomSpace" where
  "tensor_to_atomspace rnd tensor space =
     (case tensor of None \<Rightarrow> Inl Null_Deref | Some t \<Rightarrow>
      (case space of None \<Rightarrow> Inl Null_Deref | Some s \<Rightarrow>
         (let tensor_size = size_t_of_int (ne0 t * ne1 t) in
          bindf (for_upto 0 (count s) free_atom_slot (atoms s)) (\<lambda>arr.
          bindf (for_cond 0 tensor_size (\<lambda>i. i < capacity s) (atom_from_cell rnd t)
                   (s\<lparr>atoms := arr, count := 0\<rparr>, 0))
            (\<lambda>r. Inr (fst r))))))"

text \<open>
  The test \<^verbatim>\<open>atom_i && atom_j && atom_i->truth_value && atom_j->truth_value\<close> of
  \<^verbatim>\<open>create_attention_tensor\<close>, evaluated from left to right; when it holds the
  result carries the two truth values.
\<close>

definition both_truth_values ::
  "Atom ptr \<Rightarrow> Atom ptr \<Rightarrow> fault + (TruthValue \<times> TruthValue) option" where
  "both_truth_values atom_i atom_j =
     (case atom_i of Null \<Rightarrow> Inr None | _ \<Rightarrow>
      (case atom_j of Null \<Rightarrow> Inr None | _ \<Rightarrow>
       (case atom_i of Ptr a \<Rightarrow>
          (case truth_value a of None \<Rightarrow> Inr None | Some ti \<Rightarrow>
           (case atom_j of Ptr b \<Rightarrow>
              (case truth_value b of None \<Rightarrow> Inr None | Some tj \<Rightarrow> Inr (Some (ti, tj)))
            | _ \<Rightarrow> Inl Use_After_Free))
        | _ \<Rightarrow> Inl Use_After_Free)))"

text \<open>
  \<^verbatim>\<open>create_attention_tensor\<close>, which allocates its tensor with \<^verbatim>\<open>ggml_new_tensor_2d\<close>
  of \<^verbatim>\<open>cognitive-tensors.c\<close>. First the value stored in cell \<open>(i, j)\<close> of the \<open>n \<times> n\<close>
  tensor, then the function.
\<close>

definition attention_cell ::
  "AtomSpace \<Rightarrow> real \<Rightarrow> nat \<Rightarrow> nat \<Rightarrow> nat \<Rightarrow> real list option \<Rightarrow> fault + real list option" where
  "attention_cell s w n i j d =
     (if i = j then wrp d (i * n + j) w
      else if i < count s \<and> j < count s then
        bindf (rdp (atoms s) i) (\<lambda>atom_i.
        bindf (rdp (atoms s) j) (\<lambda>atom_j.
        bindf (both_truth_values atom_i atom_j) (\<lambda>tv.
          case tv of
            Some (ti, tj) \<Rightarrow>
              (let similarity = 1 - \<bar>mean ti - mean tj\<bar> in
               wrp d (i * n + j) (similarity * w * 0.5))
          | None \<Rightarrow> wrp d (i * n + j) (0.1 * w))))
      else wrp d (i * n + j) 0)"

definition create_attention_tensor :: "AtomSpace option \<Rightarrow> real \<Rightarrow> fault + ggml_tensor option" where
  "create_attention_tensor space w =
     (case space of None \<Rightarrow> Inl Null_Deref | Some s \<Rightarrow>
      (let n = (if count s = 0 then 64 else count s) in
       (case ggml_new_tensor_2d 0 (int n) (int n) of
          None \<Rightarrow> Inl Null_Deref
        | Some attention_tensor \<Rightarrow>
            bindf (for_upto 0 n (\<lambda>i. for_upto 0 n (attention_cell s w n i))
                     (data attention_tensor))
              (\<lambda>d. Inr (Some (attention_tensor\<lparr>data := d\<rparr>))))))"

text \<open>
  A store in use: the array has \<open>capacity\<close> slots, \<open>count\<close> of them are in use,
  and no slot in use holds a pointer to a freed atom.
\<close>

definition wf_atomspace :: "AtomSpace \<Rightarrow> bool" where
  "wf_atomspace s =
     (case atoms s of None \<Rightarrow> False
      | Some arr \<Rightarrow> length arr = capacity s \<and> count s \<le> capacity s \<and>
          Dangling \<notin> set (take (count s) arr))"

text \<open>
  The value of cell \<open>(i, j)\<close> of the attention tensor, by cases as the source
  distinguishes them.
\<close>

definition attention_value :: "AtomSpace \<Rightarrow> Atom ptr list \<Rightarrow> real \<Rightarrow> nat \<Rightarrow> nat \<Rightarrow> real" where
  "attention_value s arr w i j =
     (if i = j then w
      else if i < count s \<and> j < count s then
        (case (arr ! i, arr ! j) of
           (Ptr a, Ptr b) \<Rightarrow>
             (case (truth_value a, truth_value b) of
                (Some ti, Some tj) \<Rightarrow> (1 - \<bar>mean ti - mean tj\<bar>) * w * 0.5
              | _ \<Rightarrow> 0.1 * w)
         | _ \<Rightarrow> 0.1 * w)
      else 0)"

text \<open>A slot after its atom, if any, has been freed.\<close>

definition freed :: "'a ptr \<Rightarrow> 'a ptr" where
  "freed p = (case p of Ptr a \<Rightarrow> Dangling | q \<Rightarrow> q)"

text \<open>
  The materialisation rule in the words of the specification: the cells among
  the first \<open>n\<close> that exceed the threshold 0.01, in index order, and for the
  \<open>k\<close>-th of them, at index \<open>i\<close>, a concept atom named after \<open>i\<close> that carries the
  cell value and the confidence 0.8.
\<close>

definition significant_cells :: "real list \<Rightarrow> nat \<Rightarrow> nat list" where
  "significant_cells xs n = filter (\<lambda>i. xs ! i > 0.01) [0..<n]"

definition atoms_of_cells :: "(nat \<Rightarrow> int) \<Rightarrow> real list \<Rightarrow> nat list \<Rightarrow> Atom list" where
  "atoms_of_cells rnd xs cells =
     map (\<lambda>(k, i). create_atom (rnd k) ATOM_TYPE_CONCEPT
                      (Some (''concept_'' @ string_of_nat i)) (xs ! i) 0.8)
       (enumerate 0 cells)"

section \<open>The tensor memory pool (opencog-ggml-bridge.c)\<close>

definition TENSOR_POOL_SIZE :: nat where
  "TENSOR_POOL_SIZE = 1024"

definition TENSOR_BLOCK_SIZE :: nat where
  "TENSOR_BLOCK_SIZE = 16384"

text \<open>
  A data buffer by its origin: block \<open>i\<close> of the pool, or a buffer of the given
  size obtained from \<^verbatim>\<open>aligned_alloc\<close> outside the pool. The C pointer does not
  record the origin; the model does, so that the two allocation paths can be
  told apart.
\<close>

datatype buffer = Pool_Block nat | System_Block nat

text \<open>
  \<^verbatim>\<open>TensorMemoryPool\<close>; the three arrays have \<^verbatim>\<open>TENSOR_POOL_SIZE\<close> entries each, and
  \<open>None\<close> is a \<^verbatim>\<open>NULL\<close> block pointer.
\<close>

record TensorMemoryPool =
  blocks :: "buffer option list"
  free_blocks :: "int list"
  allocated_blocks :: "int list"
  free_count :: int
  allocated_count :: int
  total_allocated :: nat
  peak_usage :: nat

text \<open>The pool at program start: \<^verbatim>\<open>static TensorMemoryPool tensor_pool = {0}\<close>.\<close>

definition tensor_pool_zero :: TensorMemoryPool where
  "tensor_pool_zero =
     \<lparr>blocks = replicate TENSOR_POOL_SIZE None,
      free_blocks = replicate TENSOR_POOL_SIZE 0,
      allocated_blocks = replicate TENSOR_POOL_SIZE 0,
      free_count = 0, allocated_count = 0, total_allocated = 0, peak_usage = 0\<rparr>"

text \<open>
  What the system allocator answers during one call of
  \<^verbatim>\<open>ggml_new_tensor_2d_optimized\<close>: whether \<^verbatim>\<open>aligned_alloc\<close> succeeds for block \<open>i\<close>
  when the pool is initialised, whether \<^verbatim>\<open>malloc\<close> succeeds for the tensor
  header, and whether \<^verbatim>\<open>aligned_alloc\<close> succeeds on the fallback path.
\<close>

record alloc_env =
  init_ok :: "nat \<Rightarrow> bool"
  tensor_ok :: bool
  fallback_ok :: bool

text \<open>The tensor of the bridge: its data pointer is a buffer, zero-filled by \<^verbatim>\<open>memset\<close>.\<close>

record pooled_tensor =
  pt_ne0 :: int
  pt_ne1 :: int
  pt_ne2 :: int
  pt_ne3 :: int
  pt_data :: "buffer option"
  pt_type :: int

text \<open>Reading and writing an array at an \<^verbatim>\<open>int\<close> index.\<close>

definition rdi :: "'a list \<Rightarrow> int \<Rightarrow> fault + 'a" where
  "rdi xs i = (if 0 \<le> i \<and> nat i < length xs then Inr (xs ! nat i) else Inl Out_Of_Bounds)"

definition wri :: "'a list \<Rightarrow> int \<Rightarrow> 'a \<Rightarrow> fault + 'a list" where
  "wri xs i v = (if 0 \<le> i \<and> nat i < length xs then Inr (xs[nat i := v]) else Inl Out_Of_Bounds)"

text \<open>\<^verbatim>\<open>init_tensor_pool\<close>.\<close>

definition init_tensor_pool :: "alloc_env \<Rightarrow> TensorMemoryPool \<Rightarrow> TensorMemoryPool" where
  "init_tensor_pool env p =
     (fold (\<lambda>i q. q\<lparr>blocks := (blocks q)[i := (if init_ok env i then Some (Pool_Block i) else None)],
                    free_blocks := (free_blocks q)[i := int i]\<rparr>)
        [0..<TENSOR_POOL_SIZE] p)
     \<lparr>free_count := int TENSOR_POOL_SIZE, allocated_count := 0,
      total_allocated := 0, peak_usage := 0\<rparr>"

text \<open>
  The choice of the data buffer in \<^verbatim>\<open>ggml_new_tensor_2d_optimized\<close>: a block of the
  pool when the size fits and a block is free, the system allocator otherwise.
\<close>

definition allocate_data ::
  "alloc_env \<Rightarrow> TensorMemoryPool \<Rightarrow> nat \<Rightarrow> fault + buffer option \<times> TensorMemoryPool" where
  "allocate_data env p data_size =
     (if data_size \<le> TENSOR_BLOCK_SIZE \<and> free_count p > 0 then
        (let fc = free_count p - 1 in
         bindf (rdi (free_blocks p) fc) (\<lambda>block_idx.
         bindf (wri (allocated_blocks p) (allocated_count p) block_idx) (\<lambda>ab.
         bindf (rdi (blocks p) block_idx) (\<lambda>d.
         (let total = (total_allocated p + data_size) mod 2 ^ 64 in
          Inr (d, p\<lparr>free_count := fc, allocated_blocks := ab,
                     allocated_count := allocated_count p + 1,
                     total_allocated := total,
                     peak_usage := (if total > peak_usage p then total else peak_usage p)\<rparr>))))))
      else Inr (if fallback_ok env then Some (System_Block data_size) else None, p))"

text \<open>
  \<^verbatim>\<open>ggml_new_tensor_2d_optimized\<close>: the tensor, or \<^verbatim>\<open>NULL\<close>, and the pool after the
  call. The context argument is never used.
\<close>

definition ggml_new_tensor_2d_optimized ::
  "alloc_env \<Rightarrow> TensorMemoryPool \<Rightarrow> int \<Rightarrow> int \<Rightarrow> int \<Rightarrow>
     fault + pooled_tensor option \<times> TensorMemoryPool" where
  "ggml_new_tensor_2d_optimized env pool ty n0 n1 =
     bindf (rdi (blocks pool) 0) (\<lambda>b0.
       (let p1 = (if b0 = None then init_tensor_pool env pool else pool) in
        if \<not> tensor_ok env then Inr (None, p1)
        else
          (let data_size = (size_t_of_int (n0 * n1) * 4) mod 2 ^ 64 in
           bindf (allocate_data env p1 data_size) (\<lambda>r.
             case fst r of
               None \<Rightarrow> Inr (None, snd r)
             | Some b \<Rightarrow>
                 Inr (Some \<lparr>pt_ne0 = n0, pt_ne1 = n1, pt_ne2 = 1, pt_ne3 = 1,
                            pt_data = Some b, pt_type = ty\<rparr>, snd r)))))"

text \<open>
  A sequence of allocations, each with its own answers of the system allocator
  and its two extents; the result lists, for each call, the tensor returned and
  the pool after the call.
\<close>

fun allocate_all ::
  "TensorMemoryPool \<Rightarrow> (alloc_env \<times> int \<times> int) list \<Rightarrow>
     fault + (pooled_tensor option \<times> TensorMemoryPool) list" where
  "allocate_all p [] = Inr []"
| "allocate_all p (r # rs) =
     bindf (ggml_new_tensor_2d_optimized (fst r) p 0 (fst (snd r)) (snd (snd r))) (\<lambda>res.
     bindf (allocate_all (snd res) rs) (\<lambda>out. Inr (res # out)))"

text \<open>The system allocator never fails during a call.\<close>

definition env_ok :: "alloc_env \<Rightarrow> bool" where
  "env_ok env = (tensor_ok env \<and> fallback_ok env \<and> list_all (init_ok env) [0..<TENSOR_POOL_SIZE])"

text \<open>
  The pool after initialisation and \<open>k\<close> allocations from it: blocks
  \<open>TENSOR_POOL_SIZE - 1\<close> down to \<open>TENSOR_POOL_SIZE - k\<close> are handed out.
\<close>

definition pool_state :: "TensorMemoryPool \<Rightarrow> nat \<Rightarrow> bool" where
  "pool_state p k =
     (blocks p = map (\<lambda>i. Some (Pool_Block i)) [0..<TENSOR_POOL_SIZE] \<and>
      free_blocks p = map int [0..<TENSOR_POOL_SIZE] \<and>
      length (allocated_blocks p) = TENSOR_POOL_SIZE \<and>
      k \<le> TENSOR_POOL_SIZE \<and>
      free_count p = int TENSOR_POOL_SIZE - int k \<and>
      allocated_count p = int k)"

section \<open>Elementwise operations with AVX (opencog-ggml-bridge.c)\<close>

text \<open>The loop \<^verbatim>\<open>for (k = i; k < n; k += 8) body\<close>.\<close>

function for_step8 :: "nat \<Rightarrow> nat \<Rightarrow> (nat \<Rightarrow> 's \<Rightarrow> fault + 's) \<Rightarrow> 's \<Rightarrow> fault + 's" where
  "for_step8 i n body s =
     (if i < n then (case body i s of Inl e \<Rightarrow> Inl e | Inr s' \<Rightarrow> for_step8 (i + 8) n body s')
      else Inr s)"
  by pat_completeness auto
termination
  by (relation "measure (\<lambda>(i, n, body, s). n - i)") auto

declare for_step8.simps [simp del]

text \<open>
  \<^verbatim>\<open>_mm256_load_ps(&p[i])\<close> and \<^verbatim>\<open>_mm256_store_ps(&p[i], v)\<close>: eight consecutive
  floats from index \<open>i\<close>. The buffers are taken to be aligned to 32 bytes, as
  \<^verbatim>\<open>aligned_alloc\<close> makes them.
\<close>

definition load8 :: "real list option \<Rightarrow> nat \<Rightarrow> fault + real list" where
  "load8 p i = (case p of None \<Rightarrow> Inl Null_Deref
                | Some xs \<Rightarrow> if i + 8 \<le> length xs then Inr (take 8 (drop i xs))
                             else Inl Out_Of_Bounds)"

definition store8 :: "real list option \<Rightarrow> nat \<Rightarrow> real list \<Rightarrow> fault + real list option" where
  "store8 p i v = (case p of None \<Rightarrow> Inl Null_Deref
                   | Some xs \<Rightarrow> if i + 8 \<le> length xs
                                then Inr (Some (take i xs @ v @ drop (i + 8) xs))
                                else Inl Out_Of_Bounds)"

text \<open>The remainder \<^verbatim>\<open>x % y\<close> of C for a positive \<open>y\<close>: it has the sign of \<open>x\<close>.\<close>

definition c_rem :: "int \<Rightarrow> int \<Rightarrow> int" where
  "c_rem x y = (if x < 0 then - ((- x) mod y) else x mod y)"

text \<open>
  The tensor that \<^verbatim>\<open>ggml_new_tensor_2d_optimized\<close> returns, with the contents of its
  buffer: the \<^verbatim>\<open>data_size\<close> bytes that \<^verbatim>\<open>memset\<close> has cleared, as floats. What a block
  of the pool holds beyond them does not belong to the tensor.
\<close>

definition cleared_tensor :: "pooled_tensor \<Rightarrow> ggml_tensor" where
  "cleared_tensor t =
     \<lparr>ne0 = pt_ne0 t, ne1 = pt_ne1 t, ne2 = pt_ne2 t, ne3 = pt_ne3 t,
      data = Some (replicate (((size_t_of_int (pt_ne0 t * pt_ne1 t) * 4) mod 2 ^ 64) div 4) 0),
      type = pt_type t\<rparr>"

text \<open>
  \<^verbatim>\<open>ggml_mul_simd\<close> and \<^verbatim>\<open>ggml_add_simd\<close>: the tensor returned, or \<^verbatim>\<open>NULL\<close>, and the pool
  after the call. An operand is given with the contents of its buffer. As in
  \<^verbatim>\<open>ggml_mul\<close>, only the pointers are tested, and the extents of \<open>b\<close> are never
  read. The loop over chunks of eight floats is followed by the loop over the
  cells that remain.
\<close>

definition ggml_mul_simd ::
  "alloc_env \<Rightarrow> TensorMemoryPool \<Rightarrow> ggml_tensor option \<Rightarrow> ggml_tensor option \<Rightarrow>
     fault + ggml_tensor option \<times> TensorMemoryPool" where
  "ggml_mul_simd env pool a b =
     (case a of None \<Rightarrow> Inr (None, pool) | Some ta \<Rightarrow>
      (case b of None \<Rightarrow> Inr (None, pool) | Some tb \<Rightarrow>
         if data ta = None \<or> data tb = None then Inr (None, pool)
         else
           bindf (ggml_new_tensor_2d_optimized env pool 0 (ne0 ta) (ne1 ta)) (\<lambda>r.
             case fst r of
               None \<Rightarrow> Inr (None, snd r)
             | Some t \<Rightarrow>
                 (let result = cleared_tensor t;
                      size = ne0 ta * ne1 ta;
                      simd_size = size - c_rem size 8 in
                  bindf (for_step8 0 (nat simd_size)
                           (\<lambda>i result_data.
                              bindf (load8 (data ta) i) (\<lambda>va.
                              bindf (load8 (data tb) i) (\<lambda>vb.
                              store8 result_data i (map2 fmul va vb))))
                           (data result)) (\<lambda>result_data.
                  bindf (for_upto (nat simd_size) (nat size)
                           (\<lambda>i result_data.
                              bindf (rdp (data ta) i) (\<lambda>x.
                              bindf (rdp (data tb) i) (\<lambda>y.
                              wrp result_data i (fmul x y))))
                           result_data) (\<lambda>result_data.
                  Inr (Some (result\<lparr>data := result_data\<rparr>), snd r)))))))"

definition ggml_add_simd ::
  "alloc_env \<Rightarrow> TensorMemoryPool \<Rightarrow> ggml_tensor option \<Rightarrow> ggml_tensor option \<Rightarrow>
     fault + ggml_tensor option \<times> TensorMemoryPool" where
  "ggml_add_simd env pool a b =
     (case a of None \<Rightarrow> Inr (None, pool) | Some ta \<Rightarrow>
      (case b of None \<Rightarrow> Inr (None, pool) | Some tb \<Rightarrow>
         if data ta = None \<or> data tb = None then Inr (None, pool)
         else
           bindf (ggml_new_tensor_2d_optimized env pool 0 (ne0 ta) (ne1 ta)) (\<lambda>r.
             case fst r of
               None \<Rightarrow> Inr (None, snd r)
             | Some t \<Rightarrow>
                 (let result = cleared_tensor t;
                      size = ne0 ta * ne1 ta;
                      simd_size = size - c_rem size 8 in
                  bindf (for_step8 0 (nat simd_size)
                           (\<lambda>i result_data.
                              bindf (load8 (data ta) i) (\<lambda>va.
                              bindf (load8 (data tb) i) (\<lambda>vb.
                              store8 result_data i (map2 fadd va vb))))
                           (data result)) (\<lambda>result_data.
                  bindf (for_upto (nat simd_size) (nat size)
                           (\<lambda>i result_data.
                              bindf (rdp (data ta) i) (\<lambda>x.
                              bindf (rdp (data tb) i) (\<lambda>y.
                              wrp result_data i (fadd x y))))
                           result_data) (\<lambda>result_data.
                  Inr (Some (result\<lparr>data := result_data\<rparr>), snd r)))))))"

section \<open>Auxiliary lemmas\<close>

lemma bindf_Inr [simp]: "bindf (Inr x) f = f x"
  by (simp add: bindf_def)

lemma bindf_Inl [simp]: "bindf (Inl e) f = Inl e"
  by (simp add: bindf_def)

lemma rdp_Some [simp]: "i < length xs \<Longrightarrow> rdp (Some xs) i = Inr (xs ! i)"
  by (simp add: rdp_def)

lemma wrp_Some [simp]: "i < length xs \<Longrightarrow> wrp (Some xs) i v = Inr (Some (xs[i := v]))"
  by (simp add: wrp_def)

lemma for_upto_done [simp]: "n \<le> i \<Longrightarrow> for_upto i n body s = Inr s"
  by (simp add: for_upto.simps)

lemma for_upto_step:
  "i < n \<Longrightarrow> for_upto i n body s = bindf (body i s) (for_upto (Suc i) n body)"
  by (subst for_upto.simps) (simp add: bindf_def)

text \<open>An invariant rule: every iteration succeeds and re-establishes \<open>P\<close>.\<close>

lemma for_upto_invariant:
  assumes "P i s" and "i \<le> n"
    and "\<And>k t. i \<le> k \<Longrightarrow> k < n \<Longrightarrow> P k t \<Longrightarrow> \<exists>t'. body k t = Inr t' \<and> P (Suc k) t'"
  shows "\<exists>s'. for_upto i n body s = Inr s' \<and> P n s'"
  using assms
proof (induction "n - i" arbitrary: i s)
  case 0
  then show ?case by simp
next
  case (Suc d)
  then have lt: "i < n" by simp
  with Suc.prems obtain t where t: "body i s = Inr t" "P (Suc i) t"
    by blast
  have "\<exists>s'. for_upto (Suc i) n body t = Inr s' \<and> P n s'"
  proof (rule Suc.hyps(1))
    show "d = n - Suc i" using Suc.hyps(2) by simp
    show "P (Suc i) t" by fact
    show "Suc i \<le> n" using lt by simp
    show "\<And>k u. Suc i \<le> k \<Longrightarrow> k < n \<Longrightarrow> P k u \<Longrightarrow> \<exists>t'. body k u = Inr t' \<and> P (Suc k) t'"
      using Suc.prems(3) by simp
  qed
  then show ?case using lt t by (simp add: for_upto_step)
qed

text \<open>A loop that stores \<open>g k\<close> in cell \<open>k\<close> of its buffer, for every \<open>k\<close> from \<open>i\<close> up to \<open>n\<close>.\<close>

lemma for_upto_store:
  assumes "\<And>k zs. i \<le> k \<Longrightarrow> k < n \<Longrightarrow> length zs = length ys \<Longrightarrow>
             body k (Some zs) = Inr (Some (zs[k := g k]))"
    and "i \<le> n" and "n \<le> length ys"
  shows "for_upto i n body (Some ys) = Inr (Some (take i ys @ map g [i..<n] @ drop n ys))"
proof -
  let ?P = "\<lambda>k p. p = Some (take i ys @ map g [i..<k] @ drop k ys)"
  have "\<exists>s'. for_upto i n body (Some ys) = Inr s' \<and> ?P n s'"
  proof (rule for_upto_invariant [where P = ?P])
    show "?P i (Some ys)" by simp
    show "i \<le> n" by fact
  next
    fix k t
    assume k: "i \<le> k" "k < n" and t: "t = Some (take i ys @ map g [i..<k] @ drop k ys)"
    let ?zs = "take i ys @ map g [i..<k] @ drop k ys"
    have len: "length ?zs = length ys" using k assms(3) by simp
    have "body k (Some ?zs) = Inr (Some (?zs[k := g k]))"
      using assms(1) [OF k len] .
    moreover have "?zs[k := g k] = take i ys @ map g [i..<Suc k] @ drop (Suc k) ys"
      using k assms(3)
      by (simp add: list_update_append upt_rec [of k] Cons_nth_drop_Suc [symmetric] list_update_code)
    ultimately show "\<exists>t'. body k t = Inr t' \<and> t' = Some (take i ys @ map g [i..<Suc k] @ drop (Suc k) ys)"
      using t by simp
  qed
  then show ?thesis by simp
qed

lemma ggml_new_tensor_2d_Some:
  "0 \<le> n0 * n1 \<Longrightarrow>
   ggml_new_tensor_2d ty n0 n1 =
     Some \<lparr>ne0 = n0, ne1 = n1, ne2 = 1, ne3 = 1, data = Some (replicate (nat (n0 * n1)) 0), type = ty\<rparr>"
  by (simp add: ggml_new_tensor_2d_def calloc_float_def)

lemma wf_tensorD:
  assumes "wf_tensor t"
  obtains xs where "data t = Some xs" "length xs = nat (ne0 t * ne1 t)"
    "0 \<le> ne0 t" "0 \<le> ne1 t" "ne2 t = 1" "ne3 t = 1"
  using assms by (auto simp: wf_tensor_def split: option.splits)

text \<open>Rounding to single precision.\<close>

lemma round_even_of_int [simp]: "round_even (of_int n) = n"
  by (simp add: round_even_def)

lemma round_even_error: "\<bar>of_int (round_even y) - y\<bar> \<le> 1 / 2"
proof -
  have "of_int \<lfloor>y\<rfloor> \<le> y" "y < of_int \<lfloor>y\<rfloor> + 1"
    by linarith+
  then show ?thesis
    by (auto simp: round_even_def Let_def)
qed

lemma to_float_error: "\<bar>to_float x - x\<bar> \<le> 2 powr of_int (ulp_exponent x) / 2"
proof (cases "x = 0")
  case True
  then show ?thesis by (simp add: to_float_def)
next
  case False
  let ?u = "2 powr real_of_int (ulp_exponent x)"
  have u: "0 < ?u" by simp
  have "\<bar>to_float x - x\<bar> = \<bar>of_int (round_even (x / ?u)) - x / ?u\<bar> * ?u"
  proof -
    have "to_float x - x = (of_int (round_even (x / ?u)) - x / ?u) * ?u"
      using False u by (simp add: to_float_def field_simps)
    then show ?thesis
      using u by (simp add: abs_mult)
  qed
  also have "\<dots> \<le> 1 / 2 * ?u"
    using round_even_error [of "x / ?u"] u by (intro mult_right_mono) simp_all
  finally show ?thesis by simp
qed

lemma floor_log2_ge: "2 ^ k \<le> \<bar>x\<bar> \<Longrightarrow> int k \<le> \<lfloor>log 2 \<bar>x\<bar>\<rfloor>"
proof -
  assume a: "2 ^ k \<le> \<bar>x\<bar>"
  then have pos: "0 < \<bar>x\<bar>" by (smt (verit) zero_less_power)
  have "real k = log 2 (2 ^ k)" by simp
  also have "\<dots> \<le> log 2 \<bar>x\<bar>"
    using a pos by (subst log_le_cancel_iff) simp_all
  finally have "real_of_int (int k) \<le> log 2 \<bar>x\<bar>" by simp
  then show ?thesis by (simp only: le_floor_iff)
qed

lemma floor_log2_less: "x \<noteq> 0 \<Longrightarrow> \<bar>x\<bar> < 2 ^ k \<Longrightarrow> \<lfloor>log 2 \<bar>x\<bar>\<rfloor> < int k"
proof -
  assume nz: "x \<noteq> 0" and a: "\<bar>x\<bar> < 2 ^ k"
  have "log 2 \<bar>x\<bar> < log 2 (2 ^ k)"
    using a nz by (subst log_less_cancel_iff) simp_all
  then have "log 2 \<bar>x\<bar> < real_of_int (int k)" by simp
  then show ?thesis by (simp only: floor_less_iff)
qed

text \<open>A float of magnitude at least \<open>2\<^sup>1\<^sup>9\<close> is a multiple of \<open>1 / 16\<close>.\<close>

lemma to_float_grid:
  assumes "2 ^ 19 \<le> \<bar>x\<bar>"
  shows "\<exists>n :: int. to_float x = of_int n / 16"
proof -
  from assms have nz: "x \<noteq> 0" by auto
  have "int 19 \<le> \<lfloor>log 2 \<bar>x\<bar>\<rfloor>" using assms by (rule floor_log2_ge)
  then have "- 4 \<le> ulp_exponent x" by (simp add: ulp_exponent_def)
  then have "0 \<le> ulp_exponent x + 4" by simp
  then obtain k :: nat where "ulp_exponent x + 4 = int k"
    by (rule nonneg_int_cases)
  then have k: "ulp_exponent x = int k - 4" by simp
  have "2 powr real_of_int (ulp_exponent x) = 2 powr (real k - 4)"
    by (simp add: k)
  also have "\<dots> = 2 ^ k / 16"
    by (simp add: powr_diff powr_realpow)
  finally have u: "2 powr real_of_int (ulp_exponent x) = 2 ^ k / 16" .
  let ?m = "round_even (x / 2 powr of_int (ulp_exponent x))"
  have "to_float x = of_int (?m * 2 ^ k) / 16"
    using nz by (simp add: to_float_def u)
  then show ?thesis by blast
qed

lemma to_float_below:
  assumes "\<bar>x\<bar> < 2 ^ 19"
  shows "\<bar>to_float x\<bar> < 2 ^ 19 + 1"
proof (cases "x = 0")
  case True
  then show ?thesis by (simp add: to_float_def)
next
  case False
  then have "\<lfloor>log 2 \<bar>x\<bar>\<rfloor> < int 19" using assms by (rule floor_log2_less)
  then have "ulp_exponent x \<le> 0" by (simp add: ulp_exponent_def)
  then have "2 powr real_of_int (ulp_exponent x) \<le> 2 powr 0"
    by (intro powr_mono) simp_all
  then have "2 powr real_of_int (ulp_exponent x) / 2 \<le> 1 / 2" by simp
  with to_float_error [of x] have "\<bar>to_float x - x\<bar> \<le> 1 / 2" by linarith
  with assms show ?thesis by linarith
qed

lemma to_float_of_int:
  assumes "\<bar>n\<bar> < 2 ^ 24"
  shows "to_float (of_int n) = of_int n"
proof (cases "n = 0")
  case True
  then show ?thesis by (simp add: to_float_def)
next
  case False
  let ?x = "real_of_int n"
  have nz: "?x \<noteq> 0" using False by simp
  have "real_of_int \<bar>n\<bar> < 2 ^ 24" using assms
    by (simp only: of_int_less_numeral_power_cancel_iff)
  then have "\<bar>?x\<bar> < 2 ^ 24" by simp
  with nz have "\<lfloor>log 2 \<bar>?x\<bar>\<rfloor> < int 24" by (rule floor_log2_less)
  moreover have "1 \<le> \<bar>n\<bar>" using False by simp
  then have "1 \<le> real_of_int \<bar>n\<bar>" by (simp only: of_int_1_le_iff)
  then have "2 ^ 0 \<le> \<bar>?x\<bar>" by simp
  then have "int 0 \<le> \<lfloor>log 2 \<bar>?x\<bar>\<rfloor>" by (rule floor_log2_ge)
  ultimately have "- 23 \<le> ulp_exponent ?x" "ulp_exponent ?x \<le> 0"
    by (simp_all add: ulp_exponent_def)
  then have "0 \<le> - ulp_exponent ?x" by simp
  then obtain k :: nat where "- ulp_exponent ?x = int k"
    by (rule nonneg_int_cases)
  then have k: "ulp_exponent ?x = - int k" by simp
  have u: "2 powr real_of_int (ulp_exponent ?x) = 1 / 2 ^ k"
    by (simp add: k powr_minus powr_realpow inverse_eq_divide)
  have "?x / (1 / 2 ^ k) = of_int (n * 2 ^ k)" by simp
  then have "round_even (?x / (1 / 2 ^ k)) = n * 2 ^ k"
    by (simp only: round_even_of_int)
  then show ?thesis
    using nz by (simp add: to_float_def u)
qed

text \<open>The sine of \<open>0.1\<close>, to ten digits.\<close>

lemma sin_tenth:
  "998334166 / 10000000000 < sin (1 / 10 :: real)"
  "sin (1 / 10 :: real) < 998334167 / 10000000000"
proof -
  have "\<bar>sin (1 / 10 :: real) - (\<Sum>m<7. sin_coeff m * (1 / 10) ^ m)\<bar>
          \<le> inverse (fact 7) * \<bar>1 / 10 :: real\<bar> ^ 7"
    by (rule Maclaurin_sin_bound)
  moreover have "(\<Sum>m<7. sin_coeff m * (1 / 10 :: real) ^ m) = 1 / 10 - 1 / 6000 + 1 / 12000000"
  proof -
    have c: "sin_coeff 0 = 0" "sin_coeff (Suc 0) = 1" "sin_coeff 2 = 0" "sin_coeff 3 = - 1 / 6"
      "sin_coeff 4 = 0" "sin_coeff 5 = 1 / 120" "sin_coeff 6 = 0"
      by (simp_all add: sin_coeff_def fact_numeral)
    have "{..<7::nat} = {0, 1, 2, 3, 4, 5, 6}" by auto
    then show ?thesis by (simp add: c power_divide)
  qed
  moreover have "inverse (fact 7) * \<bar>1 / 10 :: real\<bar> ^ 7 = 1 / 50400000000"
    by (simp add: fact_numeral power_divide)
  ultimately have "\<bar>sin (1 / 10 :: real) - (1 / 10 - 1 / 6000 + 1 / 12000000)\<bar> \<le> 1 / 50400000000"
    by simp
  then have "1 / 10 - 1 / 6000 + 1 / 12000000 - 1 / 50400000000 \<le> sin (1 / 10 :: real)"
    and "sin (1 / 10 :: real) \<le> 1 / 10 - 1 / 6000 + 1 / 12000000 + 1 / 50400000000"
    by linarith+
  then show "998334166 / 10000000000 < sin (1 / 10 :: real)"
    and "sin (1 / 10 :: real) < 998334167 / 10000000000"
    by simp_all
qed

text \<open>No float lies within \<open>0.029\<close> of \<open>1000000 * (1 + 0.1 * sin 0.1)\<close>.\<close>

lemma no_float_near:
  "29 / 1000 < \<bar>to_float z - 1000000 * 1 * (1 + 0.1 * sin (0.1 * 1))\<bar>"
proof -
  define I :: real where "I = 1000000 * 1 * (1 + 0.1 * sin (0.1 * 1))"
  have I: "1009983.34166 < I" "I < 1009983.34167"
    using sin_tenth by (simp_all add: I_def)
  have "29 / 1000 < \<bar>to_float z - I\<bar>"
  proof (cases "2 ^ 19 \<le> \<bar>z\<bar>")
    case True
    then obtain n :: int where n: "to_float z = of_int n / 16"
      using to_float_grid by blast
    have "n \<le> 16159733 \<or> 16159734 \<le> n" by linarith
    then have "real_of_int n \<le> 16159733 \<or> 16159734 \<le> real_of_int n"
      by (metis of_int_le_iff of_int_numeral)
    then show ?thesis
      using I unfolding n by (elim disjE) (simp_all add: abs_if field_simps)
  next
    case False
    then have "\<bar>z\<bar> < 2 ^ 19" by simp
    then have "\<bar>to_float z\<bar> < 2 ^ 19 + 1" by (rule to_float_below)
    then show ?thesis using I by (simp add: abs_if split: if_splits)
  qed
  then show ?thesis by (simp only: I_def)
qed

text \<open>The sine changes no faster than its argument.\<close>

lemma sin_lipschitz: "\<bar>sin a - sin b\<bar> \<le> \<bar>a - b\<bar>" for a b :: real
proof -
  have "\<bar>sin a - sin b\<bar> = 2 * \<bar>sin ((a - b) / 2)\<bar> * \<bar>cos ((a + b) / 2)\<bar>"
    by (simp add: sin_diff_sin abs_mult)
  also have "\<dots> \<le> 2 * \<bar>(a - b) / 2\<bar> * 1"
    by (intro mult_mono abs_sin_x_le_abs_x) simp_all
  finally show ?thesis by simp
qed

text \<open>The rounding error of \<open>to_float\<close>, relative to the magnitude of the number.\<close>

lemma to_float_rel: "\<bar>to_float x - x\<bar> \<le> \<bar>x\<bar> / 2 ^ 24 + 1 / 2 ^ 150"
proof (cases "x = 0")
  case True
  then show ?thesis by (simp add: to_float_def)
next
  case False
  let ?e = "\<lfloor>log 2 \<bar>x\<bar>\<rfloor>"
  have err: "\<bar>to_float x - x\<bar> \<le> 2 powr real_of_int (ulp_exponent x) / 2"
    by (rule to_float_error)
  show ?thesis
  proof (cases "- 126 \<le> ?e")
    case True
    then have u: "ulp_exponent x = ?e - 23" by (simp add: ulp_exponent_def)
    have "real_of_int ?e \<le> log 2 \<bar>x\<bar>" by simp
    then have "2 powr real_of_int ?e \<le> 2 powr log 2 \<bar>x\<bar>"
      by (intro powr_mono) simp_all
    also have "\<dots> = \<bar>x\<bar>" using False by simp
    finally have le: "2 powr real_of_int ?e \<le> \<bar>x\<bar>" .
    have "2 powr real_of_int (ulp_exponent x) / 2 = 2 powr real_of_int ?e / 2 ^ 24"
      by (simp add: u powr_diff)
    also have "\<dots> \<le> \<bar>x\<bar> / 2 ^ 24"
      using le by (simp add: divide_right_mono)
    finally show ?thesis using err by simp
  next
    case False
    then have u: "ulp_exponent x = - 149" by (simp add: ulp_exponent_def)
    have "2 powr real_of_int (ulp_exponent x) / 2 = 1 / 2 ^ 150"
      by (simp add: u powr_minus_divide powr_realpow [symmetric])
    with err have "\<bar>to_float x - x\<bar> \<le> 1 / 2 ^ 150"
      by (simp only:)
    moreover have "0 \<le> \<bar>x\<bar> / 2 ^ 24"
      by simp
    ultimately show ?thesis
      by linarith
  qed
qed

lemma to_float_abs:
  assumes "\<bar>x\<bar> \<le> b"
  shows "\<bar>to_float x - x\<bar> \<le> b / 2 ^ 24 + 1 / 2 ^ 150"
proof -
  have "\<bar>x\<bar> / 2 ^ 24 \<le> b / 2 ^ 24"
    using assms by (simp add: divide_right_mono)
  with to_float_rel [of x] show ?thesis by linarith
qed


lemma abs_mult_le:
  fixes a b :: real
  assumes "\<bar>a\<bar> \<le> A" and "\<bar>b\<bar> \<le> B"
  shows "\<bar>a * b\<bar> \<le> A * B"
proof -
  have "\<bar>a\<bar> * \<bar>b\<bar> \<le> A * B"
    using assms by (intro mult_mono) simp_all
  then show ?thesis by (simp add: abs_mult)
qed

text \<open>
  The rounding error of one cell of the attention matrix, for an input cell and
  a weight of magnitude at most 1 and an index below 4096.
\<close>

lemma attention_cell_error:
  fixes sinf :: "real \<Rightarrow> real"
  assumes acc: "\<And>y. \<bar>sinf y - sin y\<bar> \<le> 1 / 2 ^ 20"
    and x: "\<bar>x\<bar> \<le> 1" and w: "\<bar>w\<bar> \<le> 1" and i: "i < 4096"
  shows "\<bar>to_float (x * to_float (w * to_float (1 + to_float (to_float 0.1 *
             sinf (to_float (to_float (real i) * to_float 0.1))))))
          - x * w * (1 + 0.1 * sin (0.1 * real i))\<bar> \<le> 1 / 100000"
proof -
  define S where "S = sin (0.1 * real i)"
  have S: "\<bar>S\<bar> \<le> 1" by (simp add: S_def)
  define c where "c = to_float 0.1"
  have "\<bar>c - 1 / 10\<bar> \<le> (1 / 10) / 2 ^ 24 + 1 / 2 ^ 150"
    unfolding c_def using to_float_abs [of "1 / 10" "1 / 10"] by simp
  also have "\<dots> \<le> 1 / 100000000" by simp
  finally have c: "\<bar>c - 1 / 10\<bar> \<le> 1 / 100000000" .
  then have cb: "\<bar>c\<bar> \<le> 11 / 100" by linarith
  have fi: "to_float (real i) = real i"
    using to_float_of_int [of "int i"] i by simp
  define v1 where "v1 = real i * c"
  have "v1 - 0.1 * real i = real i * (c - 1 / 10)"
    by (simp add: v1_def algebra_simps)
  then have "\<bar>v1 - 0.1 * real i\<bar> \<le> 4096 * (1 / 100000000)"
    using abs_mult_le [of "real i" 4096 "c - 1 / 10" "1 / 100000000"] i c by simp
  then have v1e: "\<bar>v1 - 0.1 * real i\<bar> \<le> 41 / 1000000" by linarith
  have "\<bar>v1\<bar> \<le> 4096 * (11 / 100)"
    using abs_mult_le [of "real i" 4096 c "11 / 100"] i cb by (simp add: v1_def)
  then have v1b: "\<bar>v1\<bar> \<le> 451" by linarith
  define a1 where "a1 = to_float v1"
  have "\<bar>a1 - v1\<bar> \<le> 451 / 2 ^ 24 + 1 / 2 ^ 150"
    unfolding a1_def using v1b by (rule to_float_abs)
  also have "\<dots> \<le> 27 / 1000000" by simp
  finally have "\<bar>a1 - v1\<bar> \<le> 27 / 1000000" .
  with v1e have a1e: "\<bar>a1 - 0.1 * real i\<bar> \<le> 68 / 1000000" by linarith
  define s where "s = sinf a1"
  have "\<bar>s - sin a1\<bar> \<le> 1 / 2 ^ 20" unfolding s_def by (rule acc)
  then have "\<bar>s - sin a1\<bar> \<le> 1 / 1000000" by simp
  moreover have "\<bar>sin a1 - S\<bar> \<le> 68 / 1000000"
    unfolding S_def using sin_lipschitz [of a1 "0.1 * real i"] a1e by linarith
  ultimately have se: "\<bar>s - S\<bar> \<le> 69 / 1000000" by linarith
  define v2 where "v2 = c * s"
  have "v2 - 0.1 * S = c * (s - S) + (c - 1 / 10) * S"
    by (simp add: v2_def algebra_simps)
  moreover have "\<bar>c * (s - S)\<bar> \<le> 11 / 100 * (69 / 1000000)"
    using cb se by (rule abs_mult_le)
  moreover have "\<bar>(c - 1 / 10) * S\<bar> \<le> 1 / 100000000 * 1"
    using c S by (rule abs_mult_le)
  ultimately have v2e: "\<bar>v2 - 0.1 * S\<bar> \<le> 76 / 10000000" by linarith
  then have v2b: "\<bar>v2\<bar> \<le> 11 / 100" using S by linarith
  define p where "p = to_float v2"
  have "\<bar>p - v2\<bar> \<le> (11 / 100) / 2 ^ 24 + 1 / 2 ^ 150"
    unfolding p_def using v2b by (rule to_float_abs)
  also have "\<dots> \<le> 1 / 10000000" by simp
  finally have "\<bar>p - v2\<bar> \<le> 1 / 10000000" .
  with v2e have pe: "\<bar>p - 0.1 * S\<bar> \<le> 77 / 10000000" by linarith
  define T where "T = 1 + 0.1 * S"
  have Tb: "\<bar>T\<bar> \<le> 11 / 10" using S unfolding T_def by linarith
  define v3 where "v3 = 1 + p"
  have v3e: "\<bar>v3 - T\<bar> \<le> 77 / 10000000" using pe unfolding v3_def T_def by linarith
  then have v3b: "\<bar>v3\<bar> \<le> 12 / 10" using Tb by linarith
  define t where "t = to_float v3"
  have "\<bar>t - v3\<bar> \<le> (12 / 10) / 2 ^ 24 + 1 / 2 ^ 150"
    unfolding t_def using v3b by (rule to_float_abs)
  also have "\<dots> \<le> 1 / 10000000" by simp
  finally have "\<bar>t - v3\<bar> \<le> 1 / 10000000" .
  with v3e have te: "\<bar>t - T\<bar> \<le> 78 / 10000000" by linarith
  define v4 where "v4 = w * t"
  have "v4 - w * T = w * (t - T)" by (simp add: v4_def algebra_simps)
  moreover have "\<bar>w * (t - T)\<bar> \<le> 1 * (78 / 10000000)"
    using w te by (rule abs_mult_le)
  ultimately have v4e: "\<bar>v4 - w * T\<bar> \<le> 78 / 10000000" by linarith
  have wT: "\<bar>w * T\<bar> \<le> 1 * (11 / 10)" using w Tb by (rule abs_mult_le)
  with v4e have v4b: "\<bar>v4\<bar> \<le> 12 / 10" by linarith
  define a where "a = to_float v4"
  have "\<bar>a - v4\<bar> \<le> (12 / 10) / 2 ^ 24 + 1 / 2 ^ 150"
    unfolding a_def using v4b by (rule to_float_abs)
  also have "\<dots> \<le> 1 / 10000000" by simp
  finally have "\<bar>a - v4\<bar> \<le> 1 / 10000000" .
  with v4e have ae: "\<bar>a - w * T\<bar> \<le> 79 / 10000000" by linarith
  define v5 where "v5 = x * a"
  have "v5 - x * w * T = x * (a - w * T)" by (simp add: v5_def algebra_simps)
  moreover have "\<bar>x * (a - w * T)\<bar> \<le> 1 * (79 / 10000000)"
    using x ae by (rule abs_mult_le)
  ultimately have v5e: "\<bar>v5 - x * w * T\<bar> \<le> 79 / 10000000" by linarith
  have "\<bar>x * (w * T)\<bar> \<le> 1 * (1 * (11 / 10))" using x wT by (rule abs_mult_le)
  then have "\<bar>x * w * T\<bar> \<le> 11 / 10" by (simp add: mult.assoc)
  with v5e have v5b: "\<bar>v5\<bar> \<le> 12 / 10" by linarith
  have "\<bar>to_float v5 - v5\<bar> \<le> (12 / 10) / 2 ^ 24 + 1 / 2 ^ 150"
    using v5b by (rule to_float_abs)
  also have "\<dots> \<le> 1 / 10000000" by simp
  finally have "\<bar>to_float v5 - v5\<bar> \<le> 1 / 10000000" .
  with v5e have "\<bar>to_float v5 - x * w * T\<bar> \<le> 1 / 100000" by linarith
  then show ?thesis
    by (simp only: v5_def a_def v4_def t_def v3_def p_def v2_def s_def a1_def v1_def c_def fi
        T_def S_def)
qed


lemma sinf_rounded_accurate: "\<bar>sinf_rounded y - sin y\<bar> \<le> 1 / 2 ^ 20"
proof -
  have "\<bar>to_float (sin y) - sin y\<bar> \<le> 1 / 2 ^ 24 + 1 / 2 ^ 150"
    by (rule to_float_abs) simp
  also have "\<dots> \<le> (1 / 2 ^ 20 :: real)" by simp
  finally show ?thesis by (simp only: sinf_rounded_def)
qed

text \<open>Evaluating \<open>to_float\<close> at a given number.\<close>

lemma round_even_near:
  assumes "\<bar>y - of_int k\<bar> < 1 / 2"
  shows "round_even y = k"
proof -
  have "of_int \<lfloor>y\<rfloor> \<le> y" "y < of_int \<lfloor>y\<rfloor> + 1"
    by linarith+
  with assms have "\<lfloor>y\<rfloor> = k \<and> y - of_int k < 1 / 2 \<or> \<lfloor>y\<rfloor> = k - 1 \<and> 1 / 2 < y - of_int (k - 1)"
    by (auto simp: abs_if split: if_splits) linarith+
  then show ?thesis
    by (auto simp: round_even_def Let_def)
qed

text \<open>
  The float nearest to \<open>x\<close>, from the binade \<open>[p, 2 * p)\<close> of \<open>x\<close>, the unit \<open>u\<close> of
  its last place and the nearest multiple \<open>k * u\<close>.
\<close>

lemma to_float_eq:
  assumes "2 powr real_of_int e \<le> \<bar>x\<bar>" and "\<bar>x\<bar> < 2 powr real_of_int (e + 1)" and "- 126 \<le> e"
    and "2 powr real_of_int (e - 23) = u" and "\<bar>x / u - of_int k\<bar> < 1 / 2"
  shows "to_float x = of_int k * u"
proof -
  have pos: "0 < \<bar>x\<bar>"
    using assms(1) by (smt (verit) powr_gt_zero)
  then have nz: "x \<noteq> 0" by simp
  have "real_of_int e = log 2 (2 powr real_of_int e)" by simp
  also have "\<dots> \<le> log 2 \<bar>x\<bar>"
    using assms(1) pos by (subst log_le_cancel_iff) simp_all
  finally have lo: "real_of_int e \<le> log 2 \<bar>x\<bar>" .
  have "log 2 \<bar>x\<bar> < log 2 (2 powr real_of_int (e + 1))"
    using assms(2) pos by (subst log_less_cancel_iff) simp_all
  then have hi: "log 2 \<bar>x\<bar> < real_of_int e + 1" by simp
  from lo hi have "\<lfloor>log 2 \<bar>x\<bar>\<rfloor> = e"
    by (simp add: floor_unique)
  then have "ulp_exponent x = e - 23"
    using assms(3) by (simp add: ulp_exponent_def)
  then have "to_float x = of_int (round_even (x / u)) * u"
    using nz assms(4) by (simp add: to_float_def)
  then show ?thesis
    by (simp only: round_even_near [OF assms(5)])
qed

lemma to_float_pos:
  assumes "(of_int k - 1 / 2) * u < x" and "x < (of_int k + 1 / 2) * u" and "0 < u"
    and "2 powr real_of_int e \<le> x" and "x < 2 powr real_of_int (e + 1)" and "- 126 \<le> e"
    and "2 powr real_of_int (e - 23) = u"
  shows "to_float x = of_int k * u"
proof -
  have "0 < x"
    using assms(4) by (smt (verit) powr_gt_zero)
  then have abs: "\<bar>x\<bar> = x" by simp
  have "of_int k - 1 / 2 < x / u" "x / u < of_int k + 1 / 2"
    using assms(1,2,3) by (simp_all add: pos_less_divide_eq pos_divide_less_eq)
  then have "\<bar>x / u - of_int k\<bar> < 1 / 2"
    by linarith
  note near = this
  have "2 powr real_of_int e \<le> \<bar>x\<bar>" and "\<bar>x\<bar> < 2 powr real_of_int (e + 1)"
    using assms(4,5) by (simp_all only: abs)
  then show ?thesis
    using assms(6,7) near by (rule to_float_eq)
qed

lemma sin_coeff_values:
  "sin_coeff 0 = 0" "sin_coeff (Suc 0) = 1" "sin_coeff 2 = 0" "sin_coeff 3 = - 1 / 6"
  "sin_coeff 4 = 0" "sin_coeff 5 = 1 / 120" "sin_coeff 6 = 0" "sin_coeff 7 = - 1 / 5040"
  "sin_coeff 8 = 0"
  by (simp_all add: sin_coeff_def fact_numeral)

text \<open>The sine within \<open>x\<^sup>9 / 9!\<close> of its polynomial of degree 7.\<close>

lemma sin_poly7:
  "\<bar>sin x - (x - x ^ 3 / 6 + x ^ 5 / 120 - x ^ 7 / 5040)\<bar> \<le> \<bar>x\<bar> ^ 9 / 362880" for x :: real
proof -
  have "\<bar>sin x - (\<Sum>m<9. sin_coeff m * x ^ m)\<bar> \<le> inverse (fact 9) * \<bar>x\<bar> ^ 9"
    by (rule Maclaurin_sin_bound)
  moreover have "{..<9::nat} = {0, 1, 2, 3, 4, 5, 6, 7, 8}"
    by auto
  then have "(\<Sum>m<9. sin_coeff m * x ^ m) = x - x ^ 3 / 6 + x ^ 5 / 120 - x ^ 7 / 5040"
    by (simp add: sin_coeff_values)
  moreover have "inverse (fact 9) * \<bar>x\<bar> ^ 9 = \<bar>x\<bar> ^ 9 / 362880"
    by (simp add: fact_numeral)
  ultimately show ?thesis
    by simp
qed


lemma sin_arg1: "267988291 / 2684354560 < sin (13421773 / 134217728 :: real)" "sin (13421773 / 134217728 :: real) < 267988309 / 2684354560"
proof -
  have "\<bar>sin (13421773 / 134217728 :: real) - (13421773 / 134217728 - (13421773 / 134217728) ^ 3 / 6 + (13421773 / 134217728) ^ 5 / 120 - (13421773 / 134217728) ^ 7 / 5040)\<bar>
          \<le> \<bar>13421773 / 134217728\<bar> ^ 9 / 362880"
    by (rule sin_poly7)
  then have "\<bar>sin (13421773 / 134217728 :: real) - (394798648979857896064251575150168255061904885930592157481307 / 3954574093293608881216547336620829842144483930012341743124480)\<bar> \<le> 14134778413848437658530906045210550129469075307911444034606767213 / 5129227702934240844153495976556722168187818851985796860185347666600526914519040"
    by (simp add: power_divide)
  then have "512068333948420087407944114329257647226366053325876006395319967911362188895123 / 5129227702934240844153495976556722168187818851985796860185347666600526914519040 \<le> sin (13421773 / 134217728 :: real)" and "sin (13421773 / 134217728 :: real) \<le> 512068333948448356964771811204574709038456474426134944545935790799431402429549 / 5129227702934240844153495976556722168187818851985796860185347666600526914519040"
    by linarith+
  then show "267988291 / 2684354560 < sin (13421773 / 134217728 :: real)" and "sin (13421773 / 134217728 :: real) < 267988309 / 2684354560"
    by simp_all
qed

text \<open>The cell at index \<open>1\<close> of the attention matrix of an input cell \<open>1000000\<close>, for the weight \<open>1\<close>.\<close>

lemma attention_cell_1:
  "fmul 1000000 (fmul 1 (fadd 1 (fmul (to_float 0.1)
      (sinf_rounded (fmul (to_float (real 1)) (to_float 0.1)))))) = 16159733 / 16"
proof -
  define c :: real where "c = 13421773 / 134217728"
  define a :: real where "a = 13421773 / 134217728"
  define s :: real where "s = 13399415 / 134217728"
  define p :: real where "p = 2679883 / 268435456"
  define t :: real where "t = 4236177 / 4194304"
  have ti: "to_float 1 = 1"
    using to_float_of_int [of 1] by simp
  have tc: "to_float (1 / 10) = c"
    using to_float_eq [of "- 4" "1 / 10" "1 / 134217728" 13421773]
    by (simp add: powr_minus_divide c_def)
  have ta: "to_float (1 * c) = a"
    using to_float_eq [of "- 4" "1 * c" "1 / 134217728" 13421773]
    by (simp add: powr_minus_divide c_def a_def)
  have ts: "to_float (sin a) = s"
    using to_float_pos [of 13399415 "1 / 134217728" "sin a" "- 4"] sin_arg1
    by (simp add: powr_minus_divide a_def s_def)
  have tp: "to_float (c * s) = p"
    using to_float_eq [of "- 7" "c * s" "1 / 1073741824" 10719532]
    by (simp add: powr_minus_divide c_def s_def p_def)
  have tt: "to_float (1 + p) = t"
    using to_float_eq [of 0 "1 + p" "1 / 8388608" 8472354]
    by (simp add: powr_minus_divide p_def t_def)
  have tw: "to_float (1 * t) = t"
    using to_float_eq [of 0 "1 * t" "1 / 8388608" 8472354]
    by (simp add: powr_minus_divide t_def)
  have tx: "to_float (1000000 * t) = 16159733 / 16"
    using to_float_eq [of 19 "1000000 * t" "1 / 16" 16159733]
    by (simp add: powr_minus_divide t_def)
  show ?thesis
    unfolding fmul_def fadd_def sinf_rounded_def
    using ti tc ta ts tp tt tw tx by simp
qed

lemma sin_arg2: "266649451 / 1342177280 < sin (13421773 / 67108864 :: real)" "sin (13421773 / 67108864 :: real) < 266649469 / 1342177280"
proof -
  have "\<bar>sin (13421773 / 67108864 :: real) - (13421773 / 67108864 - (13421773 / 67108864) ^ 3 / 6 + (13421773 / 67108864) ^ 5 / 120 - (13421773 / 67108864) ^ 7 / 5040)\<bar>
          \<le> \<bar>13421773 / 67108864\<bar> ^ 9 / 362880"
    by (rule sin_poly7)
  then have "\<bar>sin (13421773 / 67108864 :: real) - (6137910939368535226259465278035055481685767856260090345819 / 30895110103856319384504276067350233141753780703221419868160)\<bar> \<le> 14134778413848437658530906045210550129469075307911444034606767213 / 10018022857293439148737296829212347984741833695284759492549507161329154129920"
    by (simp add: power_divide)
  then have "398054785236150383208745447391649316504648847221526416453309216121875456183 / 2003604571458687829747459365842469596948366739056951898509901432265830825984 \<le> sin (13421773 / 67108864 :: real)" and "sin (13421773 / 67108864 :: real) \<le> 1990273926209021472871424112275308394613665336366570232882368968678590815341 / 10018022857293439148737296829212347984741833695284759492549507161329154129920"
    by linarith+
  then show "266649451 / 1342177280 < sin (13421773 / 67108864 :: real)" and "sin (13421773 / 67108864 :: real) < 266649469 / 1342177280"
    by simp_all
qed

text \<open>The cell at index \<open>2\<close> of the attention matrix of an input cell \<open>1000000\<close>, for the weight \<open>1\<close>.\<close>

lemma attention_cell_2:
  "fmul 1000000 (fmul 1 (fadd 1 (fmul (to_float 0.1)
      (sinf_rounded (fmul (to_float (real 2)) (to_float 0.1)))))) = 16317871 / 16"
proof -
  define c :: real where "c = 13421773 / 134217728"
  define a :: real where "a = 13421773 / 67108864"
  define s :: real where "s = 13332473 / 67108864"
  define p :: real where "p = 10665979 / 536870912"
  define t :: real where "t = 33419 / 32768"
  have ti: "to_float 2 = 2"
    using to_float_of_int [of 2] by simp
  have tc: "to_float (1 / 10) = c"
    using to_float_eq [of "- 4" "1 / 10" "1 / 134217728" 13421773]
    by (simp add: powr_minus_divide c_def)
  have ta: "to_float (2 * c) = a"
    using to_float_eq [of "- 3" "2 * c" "1 / 67108864" 13421773]
    by (simp add: powr_minus_divide c_def a_def)
  have ts: "to_float (sin a) = s"
    using to_float_pos [of 13332473 "1 / 67108864" "sin a" "- 3"] sin_arg2
    by (simp add: powr_minus_divide a_def s_def)
  have tp: "to_float (c * s) = p"
    using to_float_eq [of "- 6" "c * s" "1 / 536870912" 10665979]
    by (simp add: powr_minus_divide c_def s_def p_def)
  have tt: "to_float (1 + p) = t"
    using to_float_eq [of 0 "1 + p" "1 / 8388608" 8555264]
    by (simp add: powr_minus_divide p_def t_def)
  have tw: "to_float (1 * t) = t"
    using to_float_eq [of 0 "1 * t" "1 / 8388608" 8555264]
    by (simp add: powr_minus_divide t_def)
  have tx: "to_float (1000000 * t) = 16317871 / 16"
    using to_float_eq [of 19 "1000000 * t" "1 / 16" 16317871]
    by (simp add: powr_minus_divide t_def)
  show ?thesis
    unfolding fmul_def fadd_def sinf_rounded_def
    using ti tc ta ts tp tt tw tx by simp
qed

lemma attention_cell_0:
  "fmul 1000000 (fmul 1 (fadd 1 (fmul (to_float 0.1)
      (sinf_rounded (fmul (to_float (real 0)) (to_float 0.1)))))) = 1000000"
  using to_float_of_int [of 0] to_float_of_int [of 1] to_float_of_int [of 1000000]
  by (simp add: fmul_def fadd_def sinf_rounded_def)

text \<open>The elementwise loop of \<^verbatim>\<open>ggml_mul\<close> and \<^verbatim>\<open>ggml_add\<close>, for an operator \<open>h\<close>.\<close>

lemma binop_loop:
  assumes "length xs = n" and "n \<le> length ys"
  shows "for_upto 0 n
           (\<lambda>i result_data.
              bindf (rdp (Some xs) i) (\<lambda>x.
              bindf (rdp (Some ys) i) (\<lambda>y.
              wrp result_data i (h x y))))
           (Some (replicate n (0::real)))
         = Inr (Some (map (\<lambda>i. h (xs ! i) (ys ! i)) [0..<n]))"
proof -
  have "for_upto 0 n
           (\<lambda>i result_data.
              bindf (rdp (Some xs) i) (\<lambda>x.
              bindf (rdp (Some ys) i) (\<lambda>y.
              wrp result_data i (h x y))))
           (Some (replicate n (0::real)))
        = Inr (Some (take 0 (replicate n 0) @ map (\<lambda>i. h (xs ! i) (ys ! i)) [0..<n]
                       @ drop n (replicate n 0)))"
    by (rule for_upto_store) (use assms in simp_all)
  then show ?thesis by simp
qed

lemma ggml_mul_closed:
  assumes "wf_tensor a" and "data a = Some xs" and "data b = Some ys" and "length xs \<le> length ys"
  shows "ggml_mul (Some a) (Some b) =
           Inr (Some \<lparr>ne0 = ne0 a, ne1 = ne1 a, ne2 = 1, ne3 = 1,
                       data = Some (map (\<lambda>i. fmul (xs ! i) (ys ! i)) [0..<length xs]), type = 0\<rparr>)"
proof -
  from assms(1,2) have len: "length xs = nat (ne0 a * ne1 a)" and nonneg: "0 \<le> ne0 a * ne1 a"
    by (auto elim!: wf_tensorD)
  show ?thesis
    using assms(2,3)
    by (simp add: ggml_mul_def ggml_new_tensor_2d_Some [OF nonneg] len [symmetric]
        binop_loop [OF refl assms(4)])
qed

lemma ggml_add_closed:
  assumes "wf_tensor a" and "data a = Some xs" and "data b = Some ys" and "length xs \<le> length ys"
  shows "ggml_add (Some a) (Some b) =
           Inr (Some \<lparr>ne0 = ne0 a, ne1 = ne1 a, ne2 = 1, ne3 = 1,
                       data = Some (map (\<lambda>i. fadd (xs ! i) (ys ! i)) [0..<length xs]), type = 0\<rparr>)"
proof -
  from assms(1,2) have len: "length xs = nat (ne0 a * ne1 a)" and nonneg: "0 \<le> ne0 a * ne1 a"
    by (auto elim!: wf_tensorD)
  show ?thesis
    using assms(2,3)
    by (simp add: ggml_add_def ggml_new_tensor_2d_Some [OF nonneg] len [symmetric]
        binop_loop [OF refl assms(4)])
qed

lemma bindf_Some_not_None: "bindf m (\<lambda>x. Inr (Some (f x))) \<noteq> Inr None"
  by (cases m) simp_all

lemma cognitive_attention_matrix_closed:
  assumes "wf_tensor inp" and "data inp = Some xs"
  shows "cognitive_attention_matrix sinf (Some inp) w =
           Inr (Some \<lparr>ne0 = ne0 inp, ne1 = ne1 inp, ne2 = 1, ne3 = 1,
                       data = Some (map (\<lambda>i. fmul (xs ! i)
                                           (fmul w (fadd 1 (fmul (to_float 0.1)
                                              (sinf (fmul (to_float (real i)) (to_float 0.1)))))))
                                      [0..<length xs]),
                       type = 0\<rparr>)"
proof -
  from assms have len: "length xs = nat (ne0 inp * ne1 inp)" and nonneg: "0 \<le> ne0 inp * ne1 inp"
    by (auto elim!: wf_tensorD)
  let ?n = "length xs"
  define g where "g = (\<lambda>i. fmul w (fadd 1 (fmul (to_float 0.1)
                              (sinf (fmul (to_float (real i)) (to_float 0.1))))))"
  have "for_upto 0 ?n (\<lambda>i attention_data. wrp attention_data i (g i)) (Some (replicate ?n 0))
        = Inr (Some (take 0 (replicate ?n 0) @ map g [0..<?n] @ drop ?n (replicate ?n 0)))"
    by (rule for_upto_store) simp_all
  then have loop: "for_upto 0 ?n (\<lambda>i attention_data. wrp attention_data i (g i))
                     (Some (replicate ?n 0)) = Inr (Some (map g [0..<?n]))"
    by simp
  let ?att = "\<lparr>ne0 = ne0 inp, ne1 = ne1 inp, ne2 = 1, ne3 = 1,
                data = Some (map g [0..<?n]), type = 0\<rparr>"
  have mul: "ggml_mul (Some inp) (Some ?att) =
               Inr (Some \<lparr>ne0 = ne0 inp, ne1 = ne1 inp, ne2 = 1, ne3 = 1,
                           data = Some (map (\<lambda>i. fmul (xs ! i) (map g [0..<?n] ! i)) [0..<?n]),
                           type = 0\<rparr>)"
    by (rule ggml_mul_closed [OF assms]) simp_all
  have "map (\<lambda>i. fmul (xs ! i) (map g [0..<?n] ! i)) [0..<?n] = map (\<lambda>i. fmul (xs ! i) (g i)) [0..<?n]"
    by (rule map_cong) simp_all
  with mul loop have "cognitive_attention_matrix sinf (Some inp) w =
           Inr (Some \<lparr>ne0 = ne0 inp, ne1 = ne1 inp, ne2 = 1, ne3 = 1,
                       data = Some (map (\<lambda>i. fmul (xs ! i) (g i)) [0..<?n]), type = 0\<rparr>)"
    unfolding g_def
    by (simp add: cognitive_attention_matrix_def ggml_new_tensor_2d_Some [OF nonneg]
        len [symmetric])
  then show ?thesis
    by (simp only: g_def)
qed

text \<open>
  Two nested loops over an \<open>m \<times> n\<close> grid, with an invariant indexed by the number
  of cells already visited in row-major order.
\<close>

lemma for_upto2_invariant:
  assumes "P 0 s"
    and "\<And>i j t. i < m \<Longrightarrow> j < n \<Longrightarrow> P (i * n + j) t \<Longrightarrow>
           \<exists>t'. body i j t = Inr t' \<and> P (Suc (i * n + j)) t'"
  shows "\<exists>s'. for_upto 0 m (\<lambda>i. for_upto 0 n (body i)) s = Inr s' \<and> P (m * n) s'"
proof -
  have "\<exists>s'. for_upto 0 m (\<lambda>i. for_upto 0 n (body i)) s = Inr s' \<and> (\<lambda>i t. P (i * n) t) m s'"
  proof (rule for_upto_invariant [where P = "\<lambda>i t. P (i * n) t"])
    show "P (0 * n) s" using assms(1) by simp
    show "0 \<le> m" by simp
  next
    fix i t
    assume i: "i < m" and t: "P (i * n) t"
    have "\<exists>t'. for_upto 0 n (body i) t = Inr t' \<and> (\<lambda>j u. P (i * n + j) u) n t'"
    proof (rule for_upto_invariant [where P = "\<lambda>j u. P (i * n + j) u"])
      show "P (i * n + 0) t" using t by simp
      show "0 \<le> n" by simp
    next
      fix j u
      assume "j < n" "P (i * n + j) u"
      with i show "\<exists>t'. body i j u = Inr t' \<and> P (i * n + Suc j) t'"
        using assms(2) [of i j u] by simp
    qed
    then show "\<exists>t'. for_upto 0 n (body i) t = Inr t' \<and> P (Suc i * n) t'"
      by (simp add: add.commute)
  qed
  then show ?thesis by simp
qed

lemma div_mod_cell: "j < n \<Longrightarrow> (i * n + j) div n = i \<and> (i * n + j) mod n = (j::nat)"
  by simp

text \<open>Two nested loops that store \<open>g i j\<close> in cell \<open>i * n + j\<close> of the buffer.\<close>

lemma for_upto2_store:
  assumes "\<And>i j zs. i < m \<Longrightarrow> j < n \<Longrightarrow> length zs = length ys \<Longrightarrow>
             body i j (Some zs) = Inr (Some (zs[i * n + j := g i j]))"
    and "m * n \<le> length ys"
  shows "for_upto 0 m (\<lambda>i. for_upto 0 n (body i)) (Some ys) =
           Inr (Some (map (\<lambda>k. g (k div n) (k mod n)) [0..<m * n] @ drop (m * n) ys))"
proof -
  let ?G = "\<lambda>k. g (k div n) (k mod n)"
  let ?P = "\<lambda>c p. p = Some (map ?G [0..<c] @ drop c ys)"
  have "\<exists>s'. for_upto 0 m (\<lambda>i. for_upto 0 n (body i)) (Some ys) = Inr s' \<and> ?P (m * n) s'"
  proof (rule for_upto2_invariant [where P = ?P])
    show "?P 0 (Some ys)" by simp
  next
    fix i j t
    assume i: "i < m" and j: "j < n" and t: "t = Some (map ?G [0..<i * n + j] @ drop (i * n + j) ys)"
    let ?c = "i * n + j"
    let ?zs = "map ?G [0..<?c] @ drop ?c ys"
    have "Suc i * n \<le> m * n" using i by (intro mult_le_mono1) simp
    then have c: "?c < length ys" using j assms(2) by simp
    then have len: "length ?zs = length ys" by simp
    have "body i j (Some ?zs) = Inr (Some (?zs[?c := g i j]))"
      using assms(1) [OF i j len] .
    moreover have "g i j = ?G ?c" using j by simp
    moreover have "?zs[?c := ?G ?c] = map ?G [0..<Suc ?c] @ drop (Suc ?c) ys"
      using c by (simp add: list_update_append Cons_nth_drop_Suc [symmetric] list_update_code
          del: div_mult_self3 div_mult_self4 mod_mult_self3 mod_mult_self4)
    ultimately show "\<exists>t'. body i j t = Inr t' \<and> t' = Some (map ?G [0..<Suc ?c] @ drop (Suc ?c) ys)"
      using t by simp
  qed
  then show ?thesis by simp
qed

lemma cell_index_less: "i < n \<Longrightarrow> j < n \<Longrightarrow> i * n + j < n * (n::nat)"
proof -
  assume i: "i < n" and j: "j < n"
  have "Suc i \<le> n" using i by simp
  then have le: "Suc i * n \<le> n * n" by (rule mult_le_mono1)
  have "i * n + j < Suc i * n" using j by simp
  with le show ?thesis by linarith
qed

lemma wf_hypergraphD:
  assumes "wf_hypergraph h"
  obtains ws ls adj where "node_weights h = Some ws" "length ws = node_count h"
    "link_weights h = Some ls" "length ls = link_count h"
    "adjacency_matrix h = Some adj" "length adj = node_count h * node_count h"
  using assms by (auto simp: wf_hypergraph_def split: option.splits)

text \<open>The tensor \<^verbatim>\<open>encode_hypergraph_to_tensor\<close> builds, in closed form.\<close>

lemma int_of_size_t_small: "n < 2 ^ 31 \<Longrightarrow> int_of_size_t n = int n"
  by (simp add: int_of_size_t_def)

lemma encode_hypergraph_to_tensor_closed:
  assumes "adjacency_matrix h = Some A" and "length A = node_count h * node_count h"
    and "node_weights h = Some W" and "length W = node_count h"
    and "node_count h * node_count h < 2 ^ 31"
  shows "encode_hypergraph_to_tensor (Some h) =
           Inr (Some \<lparr>ne0 = int (node_count h), ne1 = int (node_count h), ne2 = 1, ne3 = 1,
                       data = Some (map (\<lambda>k. real_of_int (A ! k) *
                                          ((W ! (k div node_count h) + W ! (k mod node_count h)) * 0.5))
                                      [0..<node_count h * node_count h]),
                       type = 0\<rparr>)"
proof -
  let ?n = "node_count h"
  let ?g = "\<lambda>i j. real_of_int (A ! (i * ?n + j)) * ((W ! i + W ! j) * 0.5)"
  let ?body = "\<lambda>i j tensor_data.
                 bindf (rdp (Some A) (i * ?n + j)) (\<lambda>adj_value.
                 bindf (rdp (Some W) i) (\<lambda>wi.
                 bindf (rdp (Some W) j) (\<lambda>wj.
                 (let weight_factor = (wi + wj) * 0.5 in
                  wrp tensor_data (i * ?n + j) (real_of_int adj_value * weight_factor)))))"
  have "for_upto 0 ?n (\<lambda>i. for_upto 0 ?n (?body i)) (Some (replicate (?n * ?n) 0)) =
          Inr (Some (map (\<lambda>k. ?g (k div ?n) (k mod ?n)) [0..<?n * ?n]
                       @ drop (?n * ?n) (replicate (?n * ?n) 0)))"
  proof (rule for_upto2_store)
    fix i j and zs :: "real list"
    assume i: "i < ?n" and j: "j < ?n" and len: "length zs = length (replicate (?n * ?n) (0::real))"
    have c: "i * ?n + j < ?n * ?n" using i j by (rule cell_index_less)
    show "?body i j (Some zs) = Inr (Some (zs[i * ?n + j := ?g i j]))"
      using i j c len assms(2,4) by (simp add: Let_def)
  qed simp
  moreover have "map (\<lambda>k. ?g (k div ?n) (k mod ?n)) [0..<?n * ?n] =
                 map (\<lambda>k. real_of_int (A ! k) * ((W ! (k div ?n) + W ! (k mod ?n)) * 0.5)) [0..<?n * ?n]"
    by (rule map_cong) simp_all
  ultimately have loop: "for_upto 0 ?n (\<lambda>i. for_upto 0 ?n (?body i)) (Some (replicate (?n * ?n) 0)) =
          Inr (Some (map (\<lambda>k. real_of_int (A ! k) * ((W ! (k div ?n) + W ! (k mod ?n)) * 0.5))
                       [0..<?n * ?n]))"
    by simp
  have nonneg: "0 \<le> int ?n * int ?n" by simp
  have nat_eq: "nat (int ?n * int ?n) = ?n * ?n" by (simp add: nat_mult_distrib)
  have "?n \<le> ?n * ?n" by (cases "?n") simp_all
  then have "?n < 2 ^ 31" using assms(5) by (rule le_less_trans)
  then have conv: "int_of_size_t ?n = int ?n" by (rule int_of_size_t_small)
  have hi: "int (?n * ?n) < 2 ^ 31"
    using assms(5) by (simp only: of_nat_less_numeral_power_cancel_iff)
  have lo: "- (2 ^ 31) \<le> int (?n * ?n)"
    by (rule order_trans [of _ 0]) simp_all
  have "int_in_range (int (?n * ?n))"
    unfolding int_in_range_def using lo hi by (rule conjI)
  then have rng: "int_in_range (int ?n * int ?n)"
    by (simp only: of_nat_mult)
  from loop show ?thesis
    by (simp add: encode_hypergraph_to_tensor_def ggml_new_tensor_2d_checked_def conv rng
        ggml_new_tensor_2d_Some [OF nonneg] nat_eq assms(1,3))
qed

lemma size_t_of_int_nat: "n < 2 ^ 64 \<Longrightarrow> size_t_of_int (int n) = n"
  by (simp add: size_t_of_int_def)

text \<open>
  A loop over concrete states \<open>emb a\<close> whose iterations succeed and act on the
  abstract state \<open>a\<close> as \<open>f\<close> does, under an invariant \<open>J\<close> of the abstract state.
\<close>

lemma for_upto_sim:
  assumes "J a"
    and "\<And>k b. i \<le> k \<Longrightarrow> k < n \<Longrightarrow> J b \<Longrightarrow> body k (emb b) = Inr (emb (f k b)) \<and> J (f k b)"
  shows "for_upto i n body (emb a) = Inr (emb (fold f [i..<n] a)) \<and> J (fold f [i..<n] a)"
proof (cases "i \<le> n")
  case False
  then show ?thesis using assms(1) by simp
next
  case True
  let ?P = "\<lambda>k t. t = emb (fold f [i..<k] a) \<and> J (fold f [i..<k] a)"
  have "\<exists>s'. for_upto i n body (emb a) = Inr s' \<and> ?P n s'"
  proof (rule for_upto_invariant [where P = ?P])
    show "?P i (emb a)" using assms(1) by simp
    show "i \<le> n" by fact
  next
    fix k t
    assume k: "i \<le> k" "k < n" and t: "t = emb (fold f [i..<k] a) \<and> J (fold f [i..<k] a)"
    let ?b = "fold f [i..<k] a"
    have "body k (emb ?b) = Inr (emb (f k ?b)) \<and> J (f k ?b)"
      using assms(2) k t by blast
    moreover have "f k ?b = fold f [i..<Suc k] a"
      using k by simp
    ultimately show "\<exists>t'. body k t = Inr t' \<and>
        (t' = emb (fold f [i..<Suc k] a) \<and> J (fold f [i..<Suc k] a))"
      using t by simp
  qed
  then show ?thesis by auto
qed

lemma with_arrays_simps [simp]:
  "node_count (with_arrays hg s) = node_count hg"
  "link_count (with_arrays hg s) = link_count hg"
  "link_weights (with_arrays hg s) = link_weights hg"
  "adjacency_matrix (with_arrays hg s) = Some (fst s)"
  "node_weights (with_arrays hg s) = Some (snd s)"
  "with_arrays (with_arrays hg s) s' = with_arrays hg s'"
  by (simp_all add: with_arrays_def)

lemma with_arrays_self:
  "adjacency_matrix hg = Some a \<Longrightarrow> node_weights hg = Some w \<Longrightarrow> with_arrays hg (a, w) = hg"
  by (simp add: with_arrays_def)

lemma decode_cell_spec_length:
  "length (fst (decode_cell_spec n v i j s)) = length (fst s) \<and>
   length (snd (decode_cell_spec n v i j s)) = length (snd s)"
  by (cases s) (simp add: decode_cell_spec_def Let_def)

lemma fst_decode_cell_spec:
  "fst (decode_cell_spec n v i j s) = (fst s)[i * n + j := (if v > 0.5 then 1 else 0)]"
  by (cases s) (simp add: decode_cell_spec_def)

text \<open>One iteration of the decoding loop follows the rule of the specification.\<close>

lemma decode_cell_sim:
  assumes "data t = Some xs" and "i * size_t_of_int (ne1 t) + j < length xs"
    and "i < node_count hg" and "j < node_count hg"
    and "length (fst s) = node_count hg * node_count hg" and "length (snd s) = node_count hg"
  shows "decode_cell t i j (with_arrays hg s) =
           Inr (with_arrays hg
                  (decode_cell_spec (node_count hg) (xs ! (i * size_t_of_int (ne1 t) + j)) i j s))"
proof -
  obtain a w where s: "s = (a, w)" by (cases s)
  have c: "i * node_count hg + j < node_count hg * node_count hg"
    using assms(3,4) by (rule cell_index_less)
  show ?thesis
    using assms c
    by (simp add: s decode_cell_def decode_cell_spec_def with_arrays_def Let_def)
qed

text \<open>\<^verbatim>\<open>decode_tensor_to_hypergraph\<close> follows the rule of the specification.\<close>

lemma decode_tensor_to_hypergraph_sim:
  assumes "data t = Some xs"
    and "m = min (node_count hg) (size_t_of_int (ne0 t))"
    and "\<forall>i<m. \<forall>j<m. i * size_t_of_int (ne1 t) + j < length xs"
    and "length (fst s) = node_count hg * node_count hg" and "length (snd s) = node_count hg"
  shows "decode_tensor_to_hypergraph (Some t) (Some (with_arrays hg s)) =
           Inr (0, Some (with_arrays hg
                  (decode_spec (node_count hg) m
                     (\<lambda>i j. xs ! (i * size_t_of_int (ne1 t) + j)) s)))"
proof -
  let ?n = "node_count hg"
  let ?cell = "\<lambda>i j. xs ! (i * size_t_of_int (ne1 t) + j)"
  let ?J = "\<lambda>u :: int list \<times> real list. length (fst u) = ?n * ?n \<and> length (snd u) = ?n"
  let ?row = "\<lambda>i. fold (\<lambda>j. decode_cell_spec ?n (?cell i j) i j) [0..<m]"
  have m_le: "m \<le> ?n" using assms(2) by simp
  have inner: "for_upto 0 m (decode_cell t i) (with_arrays hg u) = Inr (with_arrays hg (?row i u))
                 \<and> ?J (?row i u)" if i: "i < m" and u: "?J u" for i u
  proof (rule for_upto_sim [where J = ?J and emb = "with_arrays hg"])
    show "?J u" by fact
  next
    fix j b
    assume j: "j < m" and b: "?J b"
    have "decode_cell t i j (with_arrays hg b) =
            Inr (with_arrays hg (decode_cell_spec ?n (?cell i j) i j b))"
      using assms(1,3) i j m_le b by (intro decode_cell_sim) auto
    then show "decode_cell t i j (with_arrays hg b) =
            Inr (with_arrays hg (decode_cell_spec ?n (?cell i j) i j b))
          \<and> ?J (decode_cell_spec ?n (?cell i j) i j b)"
      using b by (simp add: decode_cell_spec_length)
  qed
  have outer: "for_upto 0 m (\<lambda>i. for_upto 0 m (decode_cell t i)) (with_arrays hg s) =
                 Inr (with_arrays hg (fold ?row [0..<m] s)) \<and> ?J (fold ?row [0..<m] s)"
  proof (rule for_upto_sim [where J = ?J and emb = "with_arrays hg"])
    show "?J s" using assms(4,5) by simp
  next
    fix i b
    assume "i < m" and "?J b"
    then show "for_upto 0 m (decode_cell t i) (with_arrays hg b) = Inr (with_arrays hg (?row i b))
                 \<and> ?J (?row i b)"
      by (rule inner)
  qed
  have "m = ?n \<and> ?n < size_t_of_int (ne0 t) \<or> m = size_t_of_int (ne0 t) \<and> \<not> ?n < size_t_of_int (ne0 t)"
    using assms(2) by (auto simp: min_def)
  then show ?thesis
    using outer assms(1)
    by (auto simp: decode_tensor_to_hypergraph_def Let_def decode_spec_def)
qed

text \<open>A fold over \<open>[0..<m]\<close> with an invariant indexed by the number of steps taken.\<close>

lemma fold_upt_invariant:
  assumes "P 0 s" and "\<And>k u. k < m \<Longrightarrow> P k u \<Longrightarrow> P (Suc k) (f k u)"
  shows "P m (fold f [0..<m] s)"
  using assms(2)
proof (induction m)
  case 0
  then show ?case using assms(1) by simp
next
  case (Suc m)
  then have "P m (fold f [0..<m] s)" by simp
  then show ?case using Suc.prems [of m] by simp
qed

text \<open>
  When all \<open>n\<close> rows and columns are visited, the adjacency matrix after
  \<open>decode_spec\<close> is the thresholded matrix of cell values.
\<close>

lemma fst_decode_spec_full:
  assumes "length a = n * n"
  shows "fst (decode_spec n n (\<lambda>i j. T ! (i * n + j)) (a, w)) =
           map (\<lambda>k. if T ! k > 0.5 then 1 else 0) [0..<n * n]"
proof -
  let ?B = "\<lambda>k. if T ! k > 0.5 then 1 else (0::int)"
  let ?P = "\<lambda>c (u :: int list \<times> real list). length (fst u) = n * n \<and> take c (fst u) = map ?B [0..<c]"
  let ?row = "\<lambda>i. fold (\<lambda>j. decode_cell_spec n (T ! (i * n + j)) i j) [0..<n]"
  have row: "?P (Suc i * n) (?row i u)" if i: "i < n" and u: "?P (i * n) u" for i u
  proof -
    have "(\<lambda>j v. ?P (i * n + j) v) n (?row i u)"
    proof (rule fold_upt_invariant [where P = "\<lambda>j v. ?P (i * n + j) v"])
      show "?P (i * n + 0) u" using u by simp
    next
      fix j v
      assume j: "j < n" and v: "?P (i * n + j) v"
      have c: "i * n + j < n * n" using i j by (rule cell_index_less)
      then have "take (Suc (i * n + j)) ((fst v)[i * n + j := ?B (i * n + j)]) =
                   take (i * n + j) (fst v) @ [?B (i * n + j)]"
        using v by (simp add: take_Suc_conv_app_nth)
      then show "?P (i * n + Suc j) (decode_cell_spec n (T ! (i * n + j)) i j v)"
        using v by (simp add: fst_decode_cell_spec)
    qed
    then show ?thesis by (simp add: add.commute)
  qed
  have final: "(\<lambda>i v. ?P (i * n) v) n (fold ?row [0..<n] (a, w))"
  proof (rule fold_upt_invariant [where P = "\<lambda>i v. ?P (i * n) v"])
    show "?P (0 * n) (a, w)" using assms by simp
  next
    fix i v
    assume "i < n" and "?P (i * n) v"
    then show "?P (Suc i * n) (?row i v)" by (rule row)
  qed
  let ?R = "fst (fold ?row [0..<n] (a, w))"
  from final have "length ?R = n * n" and "take (n * n) ?R = map ?B [0..<n * n]"
    by simp_all
  then have "?R = map ?B [0..<n * n]"
    using take_all [of ?R "n * n"] by simp
  then show ?thesis by (simp add: decode_spec_def)
qed

lemma for_cond_for_upto:
  assumes "\<And>k. c k = (k < b)"
  shows "for_cond i n c body s = for_upto i (min n b) body s"
  using assms
proof (induction i n c body s rule: for_cond.induct)
  case (1 i n c body s)
  note c = "1.prems"
  have ci: "c i = (i < b)" by (rule c)
  show ?case
  proof (cases "i < n \<and> c i")
    case True
    with ci have lt: "i < min n b" by simp
    have unfold: "for_cond i n c body s =
        (case body i s of Inl e \<Rightarrow> Inl e | Inr s' \<Rightarrow> for_cond (Suc i) n c body s')"
      using True by (subst for_cond.simps) simp
    show ?thesis
    proof (cases "body i s")
      case (Inl e)
      then show ?thesis using lt
        by (simp add: unfold for_upto_step)
    next
      case (Inr s')
      have "for_cond (Suc i) n c body s' = for_upto (Suc i) (min n b) body s'"
        using True Inr c by (rule "1.IH")
      then show ?thesis using Inr lt
        by (simp add: unfold for_upto_step)
    qed
  next
    case False
    with ci have "\<not> (i < n \<and> i < b)" by blast
    then have "min n b \<le> i" by arith
    then have "for_upto i (min n b) body s = Inr s"
      by (rule for_upto_done)
    moreover have "for_cond i n c body s = Inr s"
      using False by (subst for_cond.simps) auto
    ultimately show ?thesis by simp
  qed
qed

text \<open>A loop that adds \<open>g k\<close> to an accumulator.\<close>

lemma for_upto_sum:
  assumes "\<And>k acc. k < n \<Longrightarrow> body k acc = Inr (acc + g k)"
  shows "for_upto 0 n body (a::real) = Inr (a + (\<Sum>k<n. g k))"
proof -
  let ?P = "\<lambda>k acc. acc = a + (\<Sum>l<k. g l)"
  have "\<exists>s'. for_upto 0 n body a = Inr s' \<and> ?P n s'"
  proof (rule for_upto_invariant [where P = ?P])
    show "?P 0 a" by simp
    show "0 \<le> n" by simp
  next
    fix k t
    assume "k < n" and "t = a + (\<Sum>l<k. g l)"
    then show "\<exists>t'. body k t = Inr t' \<and> t' = a + (\<Sum>l<Suc k. g l)"
      using assms by simp
  qed
  then show ?thesis by simp
qed

lemma cell_index_less2: "i < m \<Longrightarrow> j < n \<Longrightarrow> i * n + j < m * (n::nat)"
proof -
  assume i: "i < m" and j: "j < n"
  have "Suc i \<le> m" using i by simp
  then have le: "Suc i * n \<le> m * n" by (rule mult_le_mono1)
  have "i * n + j < Suc i * n" using j by simp
  with le show ?thesis by linarith
qed

lemma clipped_offsets: "{k. k < a \<and> i + k < b} = {..<min a (b - i :: nat)}"
  by auto

lemma correlate_spec_alt:
  "correlate_spec p0 p1 P d0 d1 D i j =
     (\<Sum>pi | pi < p0 \<and> i + pi < d0.
        \<Sum>pj | pj < p1 \<and> j + pj < d1.
          P ! (pi * p1 + pj) * D ! ((i + pi) * d1 + (j + pj)))"
  by (simp add: correlate_spec_def)

text \<open>The accumulation loops of \<^verbatim>\<open>cognitive_pattern_match\<close> compute the clipped correlation.\<close>

lemma correlation_at_spec:
  assumes "wf_tensor tp" and "data tp = Some P" and "wf_tensor td" and "data td = Some D"
    and "i < nat (ne0 td)" and "j < nat (ne1 td)"
  shows "correlation_at tp td i j =
           Inr (correlate_spec (nat (ne0 tp)) (nat (ne1 tp)) P (nat (ne0 td)) (nat (ne1 td)) D i j)"
proof -
  let ?p0 = "nat (ne0 tp)" and ?p1 = "nat (ne1 tp)" and ?d0 = "nat (ne0 td)" and ?d1 = "nat (ne1 td)"
  from assms(1,2) have lenP: "length P = ?p0 * ?p1" and p: "0 \<le> ne0 tp" "0 \<le> ne1 tp"
    by (auto elim!: wf_tensorD simp: nat_mult_distrib)
  from assms(3,4) have lenD: "length D = ?d0 * ?d1" and d: "0 \<le> ne0 td" "0 \<le> ne1 td"
    by (auto elim!: wf_tensorD simp: nat_mult_distrib)
  let ?g = "\<lambda>pi pj. P ! (pi * ?p1 + pj) * D ! ((i + pi) * ?d1 + (j + pj))"
  let ?inner = "\<lambda>pi. for_cond 0 ?p1 (\<lambda>pj. int (j + pj) < ne1 td) (\<lambda>pj correlation.
         bindf (rdp (data tp) (nat (int pi * ne1 tp + int pj))) (\<lambda>x.
         bindf (rdp (data td) (nat (int (i + pi) * ne1 td + int (j + pj)))) (\<lambda>y.
         Inr (correlation + x * y))))"
  have idxP: "nat (int pi * ne1 tp + int pj) = pi * ?p1 + pj" for pi pj
    using p by (simp add: nat_add_distrib nat_mult_distrib)
  have idxD: "nat (int a * ne1 td + int b) = a * ?d1 + b" for a b
    using d by (simp add: nat_add_distrib nat_mult_distrib)
  have inner: "?inner pi acc = Inr (acc + (\<Sum>pj<min ?p1 (?d1 - j). ?g pi pj))"
    if pi: "pi < min ?p0 (?d0 - i)" for pi acc
  proof -
    have "?inner pi acc = for_upto 0 (min ?p1 (?d1 - j)) (\<lambda>pj correlation.
         bindf (rdp (data tp) (nat (int pi * ne1 tp + int pj))) (\<lambda>x.
         bindf (rdp (data td) (nat (int (i + pi) * ne1 td + int (j + pj)))) (\<lambda>y.
         Inr (correlation + x * y)))) acc"
      by (rule for_cond_for_upto) (use d in auto)
    also have "\<dots> = Inr (acc + (\<Sum>pj<min ?p1 (?d1 - j). ?g pi pj))"
    proof (rule for_upto_sum)
      fix pj acc'
      assume pj: "pj < min ?p1 (?d1 - j)"
      have "pi * ?p1 + pj < ?p0 * ?p1"
        using pi pj by (intro cell_index_less2) simp_all
      moreover have "i + pi < ?d0" and "j + pj < ?d1"
        using pi pj by arith+
      then have "(i + pi) * ?d1 + (j + pj) < ?d0 * ?d1"
        by (rule cell_index_less2)
      ultimately show "bindf (rdp (data tp) (nat (int pi * ne1 tp + int pj))) (\<lambda>x.
         bindf (rdp (data td) (nat (int (i + pi) * ne1 td + int (j + pj)))) (\<lambda>y.
         Inr (acc' + x * y))) = Inr (acc' + ?g pi pj)"
        by (simp add: idxP idxD assms(2,4) lenP lenD del: of_nat_add)
    qed
    finally show ?thesis .
  qed
  have "correlation_at tp td i j = for_upto 0 (min ?p0 (?d0 - i)) ?inner 0"
    unfolding correlation_at_def by (rule for_cond_for_upto) (use d in auto)
  also have "\<dots> = Inr (0 + (\<Sum>pi<min ?p0 (?d0 - i). \<Sum>pj<min ?p1 (?d1 - j). ?g pi pj))"
    by (rule for_upto_sum) (rule inner)
  finally show ?thesis
    by (simp add: correlate_spec_alt clipped_offsets)
qed

text \<open>\<^verbatim>\<open>cognitive_pattern_match\<close> in closed form.\<close>

lemma cognitive_pattern_match_closed:
  assumes "wf_tensor tp" and "data tp = Some P" and "wf_tensor td" and "data td = Some D"
  shows "cognitive_pattern_match (Some tp) (Some td) =
           Inr (Some \<lparr>ne0 = ne0 td, ne1 = ne1 td, ne2 = 1, ne3 = 1,
                  data = Some (map (\<lambda>k. correlate_spec (nat (ne0 tp)) (nat (ne1 tp)) P
                                           (nat (ne0 td)) (nat (ne1 td)) D
                                           (k div nat (ne1 td)) (k mod nat (ne1 td)))
                                 [0..<nat (ne0 td) * nat (ne1 td)]),
                  type = 0\<rparr>)"
proof -
  let ?d0 = "nat (ne0 td)" and ?d1 = "nat (ne1 td)"
  let ?C = "correlate_spec (nat (ne0 tp)) (nat (ne1 tp)) P ?d0 ?d1 D"
  from assms(3,4) have d: "0 \<le> ne0 td" "0 \<le> ne1 td"
    by (auto elim!: wf_tensorD)
  then have nonneg: "0 \<le> ne0 td * ne1 td" by simp
  have nat_eq: "nat (ne0 td * ne1 td) = ?d0 * ?d1"
    using d by (simp add: nat_mult_distrib)
  let ?body = "\<lambda>i j result_data.
                 bindf (correlation_at tp td i j) (\<lambda>correlation.
                 wrp result_data (nat (int i * ne1 td + int j)) correlation)"
  have idx: "nat (int a * ne1 td + int b) = a * ?d1 + b" for a b
    using d by (simp add: nat_add_distrib nat_mult_distrib)
  have "for_upto 0 ?d0 (\<lambda>i. for_upto 0 ?d1 (?body i)) (Some (replicate (?d0 * ?d1) 0)) =
          Inr (Some (map (\<lambda>k. ?C (k div ?d1) (k mod ?d1)) [0..<?d0 * ?d1]
                       @ drop (?d0 * ?d1) (replicate (?d0 * ?d1) 0)))"
  proof (rule for_upto2_store)
    fix i j and zs :: "real list"
    assume i: "i < ?d0" and j: "j < ?d1" and len: "length zs = length (replicate (?d0 * ?d1) (0::real))"
    have "i * ?d1 + j < ?d0 * ?d1" using i j by (rule cell_index_less2)
    then show "?body i j (Some zs) = Inr (Some (zs[i * ?d1 + j := ?C i j]))"
      using len by (simp add: correlation_at_spec [OF assms i j] idx)
  qed simp
  then show ?thesis
    by (simp add: cognitive_pattern_match_def ggml_new_tensor_2d_Some [OF nonneg] nat_eq)
qed

lemma wf_atomspaceD:
  assumes "wf_atomspace s"
  obtains arr where "atoms s = Some arr" "length arr = capacity s" "count s \<le> capacity s"
    "\<And>k. k < count s \<Longrightarrow> arr ! k \<noteq> Dangling"
proof -
  from assms obtain arr where arr: "atoms s = Some arr" "length arr = capacity s"
      "count s \<le> capacity s" "Dangling \<notin> set (take (count s) arr)"
    by (auto simp: wf_atomspace_def split: option.splits)
  have "arr ! k \<noteq> Dangling" if "k < count s" for k
  proof -
    have "take (count s) arr ! k \<in> set (take (count s) arr)"
      using that arr(2,3) by (intro nth_mem) simp
    then show ?thesis using that arr(4) by auto
  qed
  with arr(1-3) show ?thesis by (rule that)
qed

lemma both_truth_values_live:
  assumes "atom_i \<noteq> Dangling" and "atom_j \<noteq> Dangling"
  shows "both_truth_values atom_i atom_j =
           Inr (case (atom_i, atom_j) of
                  (Ptr a, Ptr b) \<Rightarrow>
                    (case (truth_value a, truth_value b) of
                       (Some ti, Some tj) \<Rightarrow> Some (ti, tj)
                     | _ \<Rightarrow> None)
                | _ \<Rightarrow> None)"
  using assms by (simp add: both_truth_values_def split: ptr.splits option.splits)

lemma attention_cell_store:
  assumes "atoms s = Some arr" and "length arr = capacity s" and "count s \<le> capacity s"
    and "\<And>k. k < count s \<Longrightarrow> arr ! k \<noteq> Dangling"
    and "i < n" and "j < n" and "length zs = n * n"
  shows "attention_cell s w n i j (Some zs) = Inr (Some (zs[i * n + j := attention_value s arr w i j]))"
proof -
  have c: "i * n + j < length zs"
    using assms(5-7) by (simp add: cell_index_less)
  show ?thesis
  proof (cases "i \<noteq> j \<and> i < count s \<and> j < count s")
    case False
    then show ?thesis using c
      by (auto simp: attention_cell_def attention_value_def)
  next
    case True
    then have live: "arr ! i \<noteq> Dangling" "arr ! j \<noteq> Dangling"
      and inb: "i < length arr" "j < length arr"
      using assms(2-4) by auto
    show ?thesis
      using True c inb assms(1)
      by (simp add: attention_cell_def attention_value_def both_truth_values_live [OF live] Let_def
          split: ptr.splits option.splits)
  qed
qed

text \<open>\<^verbatim>\<open>create_attention_tensor\<close> in closed form.\<close>

lemma create_attention_tensor_closed:
  assumes "wf_atomspace s" and "atoms s = Some arr" and "n = (if count s = 0 then 64 else count s)"
  shows "create_attention_tensor (Some s) w =
           Inr (Some \<lparr>ne0 = int n, ne1 = int n, ne2 = 1, ne3 = 1,
                  data = Some (map (\<lambda>k. attention_value s arr w (k div n) (k mod n)) [0..<n * n]),
                  type = 0\<rparr>)"
proof -
  from assms(1,2) have arr: "length arr = capacity s" "count s \<le> capacity s"
    "\<And>k. k < count s \<Longrightarrow> arr ! k \<noteq> Dangling"
    by (auto elim!: wf_atomspaceD)
  have "for_upto 0 n (\<lambda>i. for_upto 0 n (attention_cell s w n i)) (Some (replicate (n * n) 0)) =
          Inr (Some (map (\<lambda>k. attention_value s arr w (k div n) (k mod n)) [0..<n * n]
                       @ drop (n * n) (replicate (n * n) 0)))"
  proof (rule for_upto2_store)
    fix i j and zs :: "real list"
    assume "i < n" and "j < n" and "length zs = length (replicate (n * n) (0::real))"
    then show "attention_cell s w n i j (Some zs) =
                 Inr (Some (zs[i * n + j := attention_value s arr w i j]))"
      using assms(2) arr by (intro attention_cell_store) simp_all
  qed simp
  then have loop: "for_upto 0 n (\<lambda>i. for_upto 0 n (attention_cell s w n i))
                     (Some (replicate (n * n) 0)) =
          Inr (Some (map (\<lambda>k. attention_value s arr w (k div n) (k mod n)) [0..<n * n]))"
    by simp
  have nonneg: "0 \<le> int n * int n" by simp
  have nat_eq: "nat (int n * int n) = n * n" by (simp add: nat_mult_distrib)
  have "create_attention_tensor (Some s) w =
          (case ggml_new_tensor_2d 0 (int n) (int n) of
             None \<Rightarrow> Inl Null_Deref
           | Some attention_tensor \<Rightarrow>
               bindf (for_upto 0 n (\<lambda>i. for_upto 0 n (attention_cell s w n i))
                        (data attention_tensor))
                 (\<lambda>d. Inr (Some (attention_tensor\<lparr>data := d\<rparr>))))"
    unfolding create_attention_tensor_def assms(3) by (simp add: Let_def)
  then show ?thesis
    by (simp add: ggml_new_tensor_2d_Some [OF nonneg] nat_eq loop)
qed

lemma freed_simps [simp]: "freed Null = Null" "freed (Ptr a) = Dangling" "freed Dangling = Dangling"
  by (simp_all add: freed_def)

lemma freed_not_Ptr: "freed p \<noteq> Ptr a"
  by (cases p) simp_all

text \<open>The first loop of \<^verbatim>\<open>tensor_to_atomspace\<close> frees the slots in use.\<close>

lemma free_atoms_loop:
  assumes "c \<le> length arr" and "\<And>k. k < c \<Longrightarrow> arr ! k \<noteq> Dangling"
  shows "for_upto 0 c free_atom_slot (Some arr) = Inr (Some (map freed (take c arr) @ drop c arr))"
proof -
  let ?P = "\<lambda>k p. p = Some (map freed (take k arr) @ drop k arr)"
  have "\<exists>s'. for_upto 0 c free_atom_slot (Some arr) = Inr s' \<and> ?P c s'"
  proof (rule for_upto_invariant [where P = ?P])
    show "?P 0 (Some arr)" by simp
    show "0 \<le> c" by simp
  next
    fix k t
    assume k: "k < c" and t: "t = Some (map freed (take k arr) @ drop k arr)"
    let ?zs = "map freed (take k arr) @ drop k arr"
    have kl: "k < length arr" using k assms(1) by simp
    have len: "length (map freed (take k arr)) = k" using kl by simp
    have zk: "?zs ! k = arr ! k" using kl by (simp add: nth_append)
    have next_eq: "map freed (take (Suc k) arr) @ drop (Suc k) arr =
                   ?zs[k := freed (arr ! k)]"
      using kl by (simp add: take_Suc_conv_app_nth list_update_append
          Cons_nth_drop_Suc [symmetric] list_update_code)
    have "free_atom_slot k (Some ?zs) = Inr (Some (?zs[k := freed (arr ! k)]))"
    proof (cases "arr ! k")
      case Null
      then have "?zs[k := freed (arr ! k)] = ?zs"
        using zk by (metis freed_simps(1) list_update_id)
      then show ?thesis using Null zk kl by (simp add: free_atom_slot_def)
    next
      case (Ptr a)
      then show ?thesis using zk kl by (simp add: free_atom_slot_def)
    next
      case Dangling
      then show ?thesis using assms(2) [OF k] by simp
    qed
    then show "\<exists>t'. free_atom_slot k t = Inr t' \<and>
                 t' = Some (map freed (take (Suc k) arr) @ drop (Suc k) arr)"
      using t next_eq by simp
  qed
  then show ?thesis by simp
qed

lemma significant_cells_Suc:
  "significant_cells xs (Suc i) =
     (if xs ! i > 0.01 then significant_cells xs i @ [i] else significant_cells xs i)"
  by (simp add: significant_cells_def)

lemma length_significant_cells: "length (significant_cells xs i) \<le> i"
  using length_filter_le [of "\<lambda>i. xs ! i > 0.01" "[0..<i]"] by (simp add: significant_cells_def)

lemma length_atoms_of_cells [simp]: "length (atoms_of_cells rnd xs cells) = length cells"
  by (simp add: atoms_of_cells_def)

lemma atoms_of_cells_snoc:
  "atoms_of_cells rnd xs (cells @ [i]) =
     atoms_of_cells rnd xs cells @
       [create_atom (rnd (length cells)) ATOM_TYPE_CONCEPT
          (Some (''concept_'' @ string_of_nat i)) (xs ! i) 0.8]"
  by (simp add: atoms_of_cells_def enumerate_append_eq)

text \<open>The second loop of \<^verbatim>\<open>tensor_to_atomspace\<close> appends one atom per significant cell.\<close>

lemma create_atoms_loop:
  assumes "data t = Some xs" and "m \<le> length xs" and "m \<le> capacity s"
    and "length cleared = capacity s"
  shows "for_upto 0 m (atom_from_cell rnd t) (s\<lparr>atoms := Some cleared, count := 0\<rparr>, 0) =
           Inr (s\<lparr>atoms := Some (map Ptr (atoms_of_cells rnd xs (significant_cells xs m))
                                  @ drop (length (significant_cells xs m)) cleared),
                   count := length (significant_cells xs m)\<rparr>,
                length (significant_cells xs m))"
proof -
  let ?new = "\<lambda>i. atoms_of_cells rnd xs (significant_cells xs i)"
  let ?st = "\<lambda>i. (s\<lparr>atoms := Some (map Ptr (?new i) @ drop (length (significant_cells xs i)) cleared),
                     count := length (significant_cells xs i)\<rparr>,
                  length (significant_cells xs i))"
  let ?P = "\<lambda>i u. u = ?st i"
  have "\<exists>s'. for_upto 0 m (atom_from_cell rnd t) (s\<lparr>atoms := Some cleared, count := 0\<rparr>, 0) = Inr s'
          \<and> ?P m s'"
  proof (rule for_upto_invariant [where P = ?P])
    show "?P 0 (s\<lparr>atoms := Some cleared, count := 0\<rparr>, 0)"
      by (simp add: significant_cells_def atoms_of_cells_def)
    show "0 \<le> m" by simp
  next
    fix i u
    assume i: "i < m" and u: "u = ?st i"
    let ?k = "length (significant_cells xs i)"
    let ?A = "map Ptr (?new i) @ drop ?k cleared"
    have ki: "?k \<le> i" by (rule length_significant_cells)
    then have kc: "?k < capacity s" using i assms(3) by simp
    have il: "i < length xs" using i assms(2) by simp
    have lenA: "length ?A = capacity s" using kc assms(4) by simp
    show "\<exists>t'. atom_from_cell rnd t i u = Inr t' \<and> t' = ?st (Suc i)"
    proof (cases "xs ! i > 0.01")
      case False
      then show ?thesis using u il assms(1)
        by (simp add: atom_from_cell_def significant_cells_Suc)
    next
      case True
      let ?a = "create_atom (rnd ?k) ATOM_TYPE_CONCEPT (Some (''concept_'' @ string_of_nat i)) (xs ! i) 0.8"
      have upd: "?A[?k := Ptr ?a] = map Ptr (?new i @ [?a]) @ drop (Suc ?k) cleared"
        using kc assms(4)
        by (simp add: list_update_append Cons_nth_drop_Suc [symmetric] list_update_code)
      have add: "add_atom_to_space (s\<lparr>atoms := Some ?A, count := ?k\<rparr>) (Ptr ?a) =
                   Inr (s\<lparr>atoms := Some (?A[?k := Ptr ?a]), count := Suc ?k\<rparr>)"
        using kc lenA by (simp add: add_atom_to_space_def)
      have "atom_from_cell rnd t i u =
              Inr (s\<lparr>atoms := Some (?A[?k := Ptr ?a]), count := Suc ?k\<rparr>, Suc ?k)"
        using True il assms(1) add by (simp add: u atom_from_cell_def)
      then show ?thesis
        using True upd by (simp add: significant_cells_Suc atoms_of_cells_snoc)
    qed
  qed
  then show ?thesis by simp
qed

text \<open>\<^verbatim>\<open>tensor_to_atomspace\<close> in closed form.\<close>

lemma tensor_to_atomspace_closed:
  assumes "wf_tensor t" and "data t = Some xs" and "length xs < 2 ^ 64"
    and "wf_atomspace s" and "atoms s = Some arr"
    and "cells = significant_cells xs (min (length xs) (capacity s))"
  shows "tensor_to_atomspace rnd (Some t) (Some s) =
           Inr (s\<lparr>atoms := Some (map Ptr (atoms_of_cells rnd xs cells)
                                  @ drop (length cells)
                                      (map freed (take (count s) arr) @ drop (count s) arr)),
                   count := length cells\<rparr>)"
proof -
  from assms(1,2) have len: "length xs = nat (ne0 t * ne1 t)" and nonneg: "0 \<le> ne0 t * ne1 t"
    by (auto elim!: wf_tensorD)
  have "ne0 t * ne1 t < 2 ^ 64"
    using assms(3) len nonneg by (simp add: nat_less_iff)
  then have size: "size_t_of_int (ne0 t * ne1 t) = length xs"
    using len nonneg by (simp add: size_t_of_int_def)
  from assms(4,5) have arr: "length arr = capacity s" "count s \<le> capacity s"
    "\<And>k. k < count s \<Longrightarrow> arr ! k \<noteq> Dangling"
    by (auto elim!: wf_atomspaceD)
  let ?cleared = "map freed (take (count s) arr) @ drop (count s) arr"
  let ?m = "min (length xs) (capacity s)"
  have clear: "for_upto 0 (count s) free_atom_slot (atoms s) = Inr (Some ?cleared)"
    unfolding assms(5) using arr by (intro free_atoms_loop) simp_all
  have lc: "length ?cleared = capacity s"
    using arr by simp
  have "for_cond 0 (length xs) (\<lambda>i. i < capacity s) (atom_from_cell rnd t)
          (s\<lparr>atoms := Some ?cleared, count := 0\<rparr>, 0) =
        for_upto 0 ?m (atom_from_cell rnd t) (s\<lparr>atoms := Some ?cleared, count := 0\<rparr>, 0)"
    by (rule for_cond_for_upto) simp
  also have "\<dots> = Inr (s\<lparr>atoms := Some (map Ptr (atoms_of_cells rnd xs (significant_cells xs ?m))
                                  @ drop (length (significant_cells xs ?m)) ?cleared),
                   count := length (significant_cells xs ?m)\<rparr>,
                length (significant_cells xs ?m))"
    using assms(2) _ _ lc by (rule create_atoms_loop) simp_all
  finally show ?thesis
    by (simp add: tensor_to_atomspace_def size clear assms(6))
qed

lemma pool_size_pos: "0 < TENSOR_POOL_SIZE"
  by (simp add: TENSOR_POOL_SIZE_def)

lemma rdi_nat [simp]: "k < length xs \<Longrightarrow> rdi xs (int k) = Inr (xs ! k)"
  by (simp add: rdi_def)

lemma wri_nat [simp]: "k < length xs \<Longrightarrow> wri xs (int k) v = Inr (xs[k := v])"
  by (simp add: wri_def)

lemma update_at_boundary:
  "length xs = k \<Longrightarrow> k < n \<Longrightarrow>
   (xs @ replicate (n - k) z)[k := v] = (xs @ [v]) @ replicate (n - Suc k) z"
proof -
  assume len: "length xs = k" and k: "k < n"
  have "replicate (n - k) z = z # replicate (n - Suc k) z"
    using k by (metis Suc_diff_Suc replicate_Suc)
  then show ?thesis using len by (simp add: list_update_append)
qed

text \<open>When the system allocator does not fail, \<^verbatim>\<open>init_tensor_pool\<close> makes every block free.\<close>

lemma init_tensor_pool_state:
  assumes "env_ok env"
  shows "pool_state (init_tensor_pool env tensor_pool_zero) 0"
proof -
  let ?N = "TENSOR_POOL_SIZE"
  let ?f = "\<lambda>i. if init_ok env i then Some (Pool_Block i) else None"
  let ?step = "\<lambda>i q. q\<lparr>blocks := (blocks q)[i := ?f i], free_blocks := (free_blocks q)[i := int i]\<rparr>"
  let ?P = "\<lambda>k q. blocks q = map ?f [0..<k] @ replicate (?N - k) None
                \<and> free_blocks q = map int [0..<k] @ replicate (?N - k) 0
                \<and> length (allocated_blocks q) = ?N"
  have "?P ?N (fold ?step [0..<?N] tensor_pool_zero)"
  proof (rule fold_upt_invariant [where P = ?P])
    show "?P 0 tensor_pool_zero"
      by (simp add: tensor_pool_zero_def)
  next
    fix k u
    assume k: "k < ?N" and u: "?P k u"
    have "(map ?f [0..<k] @ replicate (?N - k) None)[k := ?f k] =
            (map ?f [0..<k] @ [?f k]) @ replicate (?N - Suc k) None"
      using k by (intro update_at_boundary) simp_all
    moreover have "(map int [0..<k] @ replicate (?N - k) 0)[k := int k] =
            (map int [0..<k] @ [int k]) @ replicate (?N - Suc k) 0"
      using k by (intro update_at_boundary) simp_all
    ultimately show "?P (Suc k) (?step k u)"
      using u by simp
  qed
  moreover have "map ?f [0..<?N] = map (\<lambda>i. Some (Pool_Block i)) [0..<?N]"
    using assms by (intro map_cong) (auto simp: env_ok_def list_all_iff)
  ultimately show ?thesis
    by (simp add: pool_state_def init_tensor_pool_def)
qed

lemma data_size_small:
  assumes "0 \<le> x" and "x * 4 \<le> int TENSOR_BLOCK_SIZE"
  shows "(size_t_of_int x * 4) mod 2 ^ 64 = nat x * 4" and "nat x * 4 \<le> TENSOR_BLOCK_SIZE"
proof -
  have x: "x \<le> 4096" using assms(2) by (simp add: TENSOR_BLOCK_SIZE_def)
  then have "x mod 2 ^ 64 = x" using assms(1) by simp
  then have s: "size_t_of_int x = nat x" by (simp add: size_t_of_int_def)
  have "nat x \<le> 4096" using x by simp
  then show "nat x * 4 \<le> TENSOR_BLOCK_SIZE" by (simp add: TENSOR_BLOCK_SIZE_def)
  then have "nat x * 4 < 2 ^ 64" by (simp add: TENSOR_BLOCK_SIZE_def)
  then show "(size_t_of_int x * 4) mod 2 ^ 64 = nat x * 4" by (simp add: s)
qed

text \<open>An allocation that fits a block takes the topmost free block of the pool.\<close>

lemma allocate_data_pooled:
  assumes "pool_state p k" and "k < TENSOR_POOL_SIZE" and "sz \<le> TENSOR_BLOCK_SIZE"
  shows "\<exists>p'. allocate_data env p sz = Inr (Some (Pool_Block (TENSOR_POOL_SIZE - Suc k)), p')
            \<and> pool_state p' (Suc k)"
proof -
  let ?N = "TENSOR_POOL_SIZE"
  from assms(1) have st: "blocks p = map (\<lambda>i. Some (Pool_Block i)) [0..<?N]"
      "free_blocks p = map int [0..<?N]" "length (allocated_blocks p) = ?N"
      "free_count p = int ?N - int k" "allocated_count p = int k"
    by (simp_all add: pool_state_def)
  have fc: "free_count p - 1 = int (?N - Suc k)" and pos: "free_count p > 0"
    using st(4) assms(2) by simp_all
  have top: "?N - Suc k < ?N" using assms(2) by simp
  have r1: "rdi (free_blocks p) (int (?N - Suc k)) = Inr (int (?N - Suc k))"
    using top by (simp add: st(2))
  have r2: "wri (allocated_blocks p) (int k) (int (?N - Suc k)) =
              Inr ((allocated_blocks p)[k := int (?N - Suc k)])"
    using assms(2) st(3) by simp
  have r3: "rdi (blocks p) (int (?N - Suc k)) = Inr (Some (Pool_Block (?N - Suc k)))"
    using top by (simp add: st(1))
  let ?total = "(total_allocated p + sz) mod 2 ^ 64"
  let ?p' = "p\<lparr>free_count := int (?N - Suc k),
                allocated_blocks := (allocated_blocks p)[k := int (?N - Suc k)],
                allocated_count := int k + 1, total_allocated := ?total,
                peak_usage := (if ?total > peak_usage p then ?total else peak_usage p)\<rparr>"
  have "allocate_data env p sz = Inr (Some (Pool_Block (?N - Suc k)), ?p')"
    using assms(3) pos by (simp add: allocate_data_def Let_def fc r1 r2 r3 st(5))
  moreover have "pool_state ?p' (Suc k)"
    using st assms(2) by (simp add: pool_state_def)
  ultimately show ?thesis by blast
qed

text \<open>With no block free, the allocation falls back to the system allocator.\<close>

lemma allocate_data_fallback:
  assumes "pool_state p TENSOR_POOL_SIZE" and "fallback_ok env"
  shows "allocate_data env p sz = Inr (Some (System_Block sz), p)"
  using assms by (simp add: allocate_data_def pool_state_def)

lemma pool_entry:
  assumes "p = tensor_pool_zero \<and> k = 0 \<or> pool_state p k" and "env_ok env"
  shows "\<exists>b0. rdi (blocks p) 0 = Inr b0 \<and>
           pool_state (if b0 = None then init_tensor_pool env p else p) k"
proof -
  have len: "0 < length (replicate TENSOR_POOL_SIZE (None :: buffer option))"
    "0 < length (map (\<lambda>i. Some (Pool_Block i)) [0..<TENSOR_POOL_SIZE])"
    using pool_size_pos by simp_all
  from assms(1) show ?thesis
  proof
    assume z: "p = tensor_pool_zero \<and> k = 0"
    have "rdi (blocks tensor_pool_zero) 0 = Inr None"
      using rdi_nat [OF len(1), of ] pool_size_pos by (simp add: tensor_pool_zero_def)
    then show ?thesis
      using z init_tensor_pool_state [OF assms(2)] by simp
  next
    assume st: "pool_state p k"
    then have "blocks p = map (\<lambda>i. Some (Pool_Block i)) [0..<TENSOR_POOL_SIZE]"
      by (simp add: pool_state_def)
    then have "rdi (blocks p) 0 = Inr (Some (Pool_Block 0))"
      using rdi_nat [OF len(2)] pool_size_pos by simp
    then show ?thesis using st by simp
  qed
qed

lemma new_tensor_unfold:
  assumes "rdi (blocks p) 0 = Inr b0" and "tensor_ok env"
    and "p1 = (if b0 = None then init_tensor_pool env p else p)"
    and "0 \<le> n0 * n1" and "n0 * n1 * 4 \<le> int TENSOR_BLOCK_SIZE"
  shows "ggml_new_tensor_2d_optimized env p ty n0 n1 =
           bindf (allocate_data env p1 (nat (n0 * n1) * 4)) (\<lambda>r.
             case fst r of
               None \<Rightarrow> Inr (None, snd r)
             | Some b \<Rightarrow>
                 Inr (Some \<lparr>pt_ne0 = n0, pt_ne1 = n1, pt_ne2 = 1, pt_ne3 = 1,
                            pt_data = Some b, pt_type = ty\<rparr>, snd r))"
proof -
  have "ggml_new_tensor_2d_optimized env p ty n0 n1 =
           bindf (allocate_data env p1 ((size_t_of_int (n0 * n1) * 4) mod 2 ^ 64)) (\<lambda>r.
             case fst r of
               None \<Rightarrow> Inr (None, snd r)
             | Some b \<Rightarrow>
                 Inr (Some \<lparr>pt_ne0 = n0, pt_ne1 = n1, pt_ne2 = 1, pt_ne3 = 1,
                            pt_data = Some b, pt_type = ty\<rparr>, snd r))"
    unfolding ggml_new_tensor_2d_optimized_def assms(1) assms(3) Let_def
    using assms(2) by simp
  then show ?thesis
    by (simp only: data_size_small(1) [OF assms(4,5)])
qed

lemma new_tensor_pooled:
  assumes "p = tensor_pool_zero \<and> k = 0 \<or> pool_state p k" and "env_ok env"
    and "k < TENSOR_POOL_SIZE" and "0 \<le> n0 * n1" and "n0 * n1 * 4 \<le> int TENSOR_BLOCK_SIZE"
  shows "\<exists>t i p'. ggml_new_tensor_2d_optimized env p ty n0 n1 = Inr (Some t, p')
           \<and> pt_data t = Some (Pool_Block i) \<and> pool_state p' (Suc k)"
proof -
  from pool_entry [OF assms(1,2)] obtain b0 where b0: "rdi (blocks p) 0 = Inr b0"
    and st0: "pool_state (if b0 = None then init_tensor_pool env p else p) k"
    by blast
  define p1 where "p1 = (if b0 = None then init_tensor_pool env p else p)"
  have st: "pool_state p1 k" using st0 by (simp only: p1_def)
  let ?sz = "nat (n0 * n1) * 4"
  from allocate_data_pooled [OF st assms(3) data_size_small(2) [OF assms(4,5)], of env]
  obtain p' where p': "allocate_data env p1 ?sz =
      Inr (Some (Pool_Block (TENSOR_POOL_SIZE - Suc k)), p')" "pool_state p' (Suc k)"
    by blast
  have ok: "tensor_ok env" using assms(2) by (simp add: env_ok_def)
  have "ggml_new_tensor_2d_optimized env p ty n0 n1 =
          Inr (Some \<lparr>pt_ne0 = n0, pt_ne1 = n1, pt_ne2 = 1, pt_ne3 = 1,
                      pt_data = Some (Pool_Block (TENSOR_POOL_SIZE - Suc k)), pt_type = ty\<rparr>, p')"
    by (simp add: new_tensor_unfold [OF b0 ok p1_def assms(4,5)] p'(1))
  with p'(2) show ?thesis by fastforce
qed

lemma new_tensor_fallback:
  assumes "pool_state p TENSOR_POOL_SIZE" and "env_ok env"
    and "0 \<le> n0 * n1" and "n0 * n1 * 4 \<le> int TENSOR_BLOCK_SIZE"
  shows "\<exists>t sz. ggml_new_tensor_2d_optimized env p ty n0 n1 = Inr (Some t, p)
           \<and> pt_data t = Some (System_Block sz)"
proof -
  have b0: "rdi (blocks p) 0 = Inr (Some (Pool_Block 0))"
    using assms(1) pool_size_pos by (simp add: pool_state_def rdi_def)
  have p1: "p = (if Some (Pool_Block 0) = None then init_tensor_pool env p else p)"
    by simp
  have ok: "tensor_ok env" "fallback_ok env" using assms(2) by (simp_all add: env_ok_def)
  have "ggml_new_tensor_2d_optimized env p ty n0 n1 =
          Inr (Some \<lparr>pt_ne0 = n0, pt_ne1 = n1, pt_ne2 = 1, pt_ne3 = 1,
                      pt_data = Some (System_Block (nat (n0 * n1) * 4)), pt_type = ty\<rparr>, p)"
    by (simp add: new_tensor_unfold [OF b0 ok(1) p1 assms(3,4)]
        allocate_data_fallback [OF assms(1) ok(2)])
  then show ?thesis by fastforce
qed
lemma pool_state_invariant:
  "pool_state p k \<Longrightarrow> free_count p + allocated_count p = int TENSOR_POOL_SIZE"
  by (simp add: pool_state_def)

text \<open>
  A run of allocations that starts after \<open>k\<close> allocations and ends no later
  than one allocation after the pool is exhausted.
\<close>

lemma allocate_all_run:
  assumes "p = tensor_pool_zero \<and> k = 0 \<or> pool_state p k"
    and "\<forall>r\<in>set reqs. env_ok (fst r) \<and> 0 \<le> fst (snd r) * snd (snd r)
           \<and> fst (snd r) * snd (snd r) * 4 \<le> int TENSOR_BLOCK_SIZE"
    and "k + length reqs \<le> Suc TENSOR_POOL_SIZE"
  shows "\<exists>out. allocate_all p reqs = Inr out \<and> length out = length reqs
           \<and> (\<forall>j<length reqs.
                 (k + j < TENSOR_POOL_SIZE \<longrightarrow>
                    (\<exists>t i. fst (out ! j) = Some t \<and> pt_data t = Some (Pool_Block i)))
               \<and> (k + j = TENSOR_POOL_SIZE \<longrightarrow>
                    (\<exists>t sz. fst (out ! j) = Some t \<and> pt_data t = Some (System_Block sz)))
               \<and> free_count (snd (out ! j)) + allocated_count (snd (out ! j))
                    = int TENSOR_POOL_SIZE)"
  using assms
proof (induction reqs arbitrary: p k)
  case Nil
  then show ?case by simp
next
  case (Cons r rs)
  let ?N = "TENSOR_POOL_SIZE"
  from Cons.prems(2) have r: "env_ok (fst r)" "0 \<le> fst (snd r) * snd (snd r)"
      "fst (snd r) * snd (snd r) * 4 \<le> int TENSOR_BLOCK_SIZE"
    and rs: "\<forall>r\<in>set rs. env_ok (fst r) \<and> 0 \<le> fst (snd r) * snd (snd r)
           \<and> fst (snd r) * snd (snd r) * 4 \<le> int TENSOR_BLOCK_SIZE"
    by simp_all
  from Cons.prems(3) have kN: "k \<le> ?N" by simp
  show ?case
  proof (cases "k < ?N")
    case True
    from new_tensor_pooled [OF Cons.prems(1) r(1) True r(2,3), of 0]
    obtain t i p' where step: "ggml_new_tensor_2d_optimized (fst r) p 0 (fst (snd r)) (snd (snd r))
          = Inr (Some t, p')" "pt_data t = Some (Pool_Block i)" "pool_state p' (Suc k)"
      by blast
    have "Suc k + length rs \<le> Suc ?N" using Cons.prems(3) by simp
    from Cons.IH [OF disjI2 [OF step(3)] rs this]
    obtain out where out: "allocate_all p' rs = Inr out" "length out = length rs"
      and tail: "\<And>j. j < length rs \<Longrightarrow>
                 (Suc k + j < ?N \<longrightarrow>
                    (\<exists>t i. fst (out ! j) = Some t \<and> pt_data t = Some (Pool_Block i)))
               \<and> (Suc k + j = ?N \<longrightarrow>
                    (\<exists>t sz. fst (out ! j) = Some t \<and> pt_data t = Some (System_Block sz)))
               \<and> free_count (snd (out ! j)) + allocated_count (snd (out ! j)) = int ?N"
      by blast
    let ?out = "(Some t, p') # out"
    have run: "allocate_all p (r # rs) = Inr ?out"
      by (simp add: step(1) out(1))
    have "(k + j < ?N \<longrightarrow>
              (\<exists>t i. fst (?out ! j) = Some t \<and> pt_data t = Some (Pool_Block i)))
           \<and> (k + j = ?N \<longrightarrow>
              (\<exists>t sz. fst (?out ! j) = Some t \<and> pt_data t = Some (System_Block sz)))
           \<and> free_count (snd (?out ! j)) + allocated_count (snd (?out ! j)) = int ?N"
      if j: "j < length (r # rs)" for j
    proof (cases j)
      case 0
      then show ?thesis
        using True step(2) pool_state_invariant [OF step(3)] by simp
    next
      case (Suc j')
      then have "j' < length rs" using j by simp
      from tail [OF this] show ?thesis using Suc by simp
    qed
    with run out(2) show ?thesis by simp
  next
    case False
    then have k: "k = ?N" using kN by simp
    then have rs_nil: "rs = []" using Cons.prems(3) by simp
    have st: "pool_state p ?N"
      using Cons.prems(1) k pool_size_pos by auto
    from new_tensor_fallback [OF st r(1) r(2,3), of 0]
    obtain t sz where step: "ggml_new_tensor_2d_optimized (fst r) p 0 (fst (snd r)) (snd (snd r))
          = Inr (Some t, p)" "pt_data t = Some (System_Block sz)"
      by blast
    have run: "allocate_all p [r] = Inr [(Some t, p)]"
      by (simp add: step(1))
    show ?thesis
      unfolding rs_nil
      using step(2) pool_state_invariant [OF st] k run
      by (intro exI [of _ "[(Some t, p)]"]) (simp del: allocate_all.simps)
  qed
qed

lemma cell_index_inj:
  assumes "j < n" and "j' < n"
  shows "(i * n + j = i' * n + j') = (i = i' \<and> j = (j'::nat))"
proof
  assume eq: "i * n + j = i' * n + j'"
  have "(i * n + j) div n = i" "(i * n + j) mod n = j"
    using assms(1) by simp_all
  moreover have "(i' * n + j') div n = i'" "(i' * n + j') mod n = j'"
    using assms(2) by simp_all
  ultimately show "i = i' \<and> j = j'" using eq by metis
qed simp

text \<open>
  After \<open>decode_spec\<close> the adjacency entries of the first \<open>m\<close> rows and columns
  are the thresholded cell values, and every other entry is unchanged.
\<close>

lemma decode_spec_adjacency:
  assumes "length adj = n * n" and "m \<le> n" and "i < n" and "j < n"
  shows "fst (decode_spec n m cell (adj, ws)) ! (i * n + j) =
           (if i < m \<and> j < m then (if cell i j > 0.5 then 1 else 0) else adj ! (i * n + j))"
proof -
  let ?B = "\<lambda>i j. if cell i j > 0.5 then 1 else (0::int)"
  let ?R = "\<lambda>a b (s :: int list \<times> real list). length (fst s) = n * n \<and>
              (\<forall>i' j'. i' < n \<longrightarrow> j' < n \<longrightarrow>
                 fst s ! (i' * n + j') =
                   (if (i' < a \<and> j' < m) \<or> (i' = a \<and> j' < b) then ?B i' j'
                    else adj ! (i' * n + j')))"
  let ?row = "\<lambda>a. fold (\<lambda>b. decode_cell_spec n (cell a b) a b) [0..<m]"
  have row: "?R (Suc a) 0 (?row a s)" if a: "a < m" and s: "?R a 0 s" for a s
  proof -
    have "?R a m (?row a s)"
    proof (rule fold_upt_invariant [where P = "?R a"])
      show "?R a 0 s" by fact
    next
      fix b u
      assume b: "b < m" and u: "?R a b u"
      have an: "a < n" and bn: "b < n" using a b assms(2) by simp_all
      have c: "a * n + b < length (fst u)" using u an bn by (simp add: cell_index_less)
      have "fst (decode_cell_spec n (cell a b) a b u) ! (i' * n + j') =
              (if (i' < a \<and> j' < m) \<or> (i' = a \<and> j' < Suc b) then ?B i' j'
               else adj ! (i' * n + j'))" if i': "i' < n" and j': "j' < n" for i' j'
      proof (cases "i' = a \<and> j' = b")
        case True
        then show ?thesis using c by (simp add: fst_decode_cell_spec)
      next
        case False
        then have ne: "a * n + b \<noteq> i' * n + j'"
          using cell_index_inj [OF bn j', of a i'] by auto
        have "(i' = a \<and> j' < Suc b) = (i' = a \<and> j' < b)"
          using False by auto
        then show ?thesis
          using u i' j' ne by (simp add: fst_decode_cell_spec)
      qed
      then show "?R a (Suc b) (decode_cell_spec n (cell a b) a b u)"
        using u by (simp add: decode_cell_spec_length)
    qed
    moreover have "((i' < a \<and> j' < m) \<or> (i' = a \<and> j' < m)) = ((i' < Suc a \<and> j' < m) \<or> (i' = Suc a \<and> j' < 0))"
      for i' j' by auto
    ultimately show ?thesis by simp
  qed
  have "(\<lambda>a. ?R a 0) m (fold ?row [0..<m] (adj, ws))"
  proof (rule fold_upt_invariant [where P = "\<lambda>a. ?R a 0"])
    show "?R 0 0 (adj, ws)" using assms(1) by simp
  next
    fix a u
    assume "a < m" and "?R a 0 u"
    then show "?R (Suc a) 0 (?row a u)" by (rule row)
  qed
  then show ?thesis
    using assms(3,4) by (simp add: decode_spec_def)
qed

text \<open>The weights of the nodes beyond the first \<open>m\<close> are unchanged by \<open>decode_spec\<close>.\<close>

lemma decode_spec_weights_frame:
  assumes "m \<le> k"
  shows "snd (decode_spec n m cell (adj, ws)) ! k = ws ! k"
proof -
  let ?Q = "\<lambda>(c::nat) (s :: int list \<times> real list). snd s ! k = ws ! k"
  let ?row = "\<lambda>a. fold (\<lambda>b. decode_cell_spec n (cell a b) a b) [0..<m]"
  have row: "?Q (Suc a) (?row a s)" if a: "a < m" and s: "?Q a s" for a s
  proof (rule fold_upt_invariant [where P = "\<lambda>b. ?Q (Suc a)"])
    show "?Q (Suc a) s" using s by simp
  next
    fix b u
    assume b: "b < m" and u: "?Q (Suc a) u"
    have "a \<noteq> k" "b \<noteq> k" using a b assms by simp_all
    then show "?Q (Suc a) (decode_cell_spec n (cell a b) a b u)"
      using u by (cases u) (simp add: decode_cell_spec_def Let_def)
  qed
  have "?Q m (fold ?row [0..<m] (adj, ws))"
  proof (rule fold_upt_invariant [where P = ?Q])
    show "?Q 0 (adj, ws)" by simp
  next
    fix a u
    assume "a < m" and "?Q a u"
    then show "?Q (Suc a) (?row a u)" by (rule row)
  qed
  then show ?thesis by (simp add: decode_spec_def)
qed

text \<open>The loops of \<^verbatim>\<open>ggml_mul_simd\<close> and \<^verbatim>\<open>ggml_add_simd\<close>.\<close>

lemma for_step8_done [simp]: "n \<le> i \<Longrightarrow> for_step8 i n body s = Inr s"
  by (simp add: for_step8.simps)

lemma for_step8_step:
  "i < n \<Longrightarrow> for_step8 i n body s = bindf (body i s) (for_step8 (i + 8) n body)"
  by (subst for_step8.simps) (simp add: bindf_def)

lemma map2_chunk:
  assumes "i + 8 \<le> length xs" and "i + 8 \<le> length ys"
  shows "map2 h (take 8 (drop i xs)) (take 8 (drop i ys)) = map (\<lambda>j. h (xs ! j) (ys ! j)) [i..<i + 8]"
proof (rule nth_equalityI)
  show "length (map2 h (take 8 (drop i xs)) (take 8 (drop i ys)))
          = length (map (\<lambda>j. h (xs ! j) (ys ! j)) [i..<i + 8])"
    using assms by simp
next
  fix k
  assume "k < length (map2 h (take 8 (drop i xs)) (take 8 (drop i ys)))"
  then have k: "k < 8" using assms by simp
  then show "map2 h (take 8 (drop i xs)) (take 8 (drop i ys)) ! k
               = map (\<lambda>j. h (xs ! j) (ys ! j)) [i..<i + 8] ! k"
    using assms by simp
qed

text \<open>The loop over chunks of eight cells, from chunk \<open>k\<close> up to chunk \<open>c\<close>.\<close>

lemma simd_chunks:
  assumes "length xs = n" and "n \<le> length ys" and "length zs = n" and "8 * c \<le> n" and "k \<le> c"
  shows "for_step8 (8 * k) (8 * c)
           (\<lambda>i result_data.
              bindf (load8 (Some xs) i) (\<lambda>va.
              bindf (load8 (Some ys) i) (\<lambda>vb.
              store8 result_data i (map2 h va vb))))
           (Some (map (\<lambda>j. h (xs ! j) (ys ! j)) [0..<8 * k] @ drop (8 * k) zs))
         = Inr (Some (map (\<lambda>j. h (xs ! j) (ys ! j)) [0..<8 * c] @ drop (8 * c) zs))"
  using assms(5)
proof (induction "c - k" arbitrary: k)
  case 0
  then have "k = c" by simp
  then show ?case by simp
next
  case (Suc d)
  define body where "body = (\<lambda>i result_data.
              bindf (load8 (Some xs) i) (\<lambda>va.
              bindf (load8 (Some ys) i) (\<lambda>vb.
              store8 result_data i (map2 h va vb))))"
  define g where "g = (\<lambda>j. h (xs ! j) (ys ! j))"
  define i where "i = 8 * k"
  let ?cur = "map g [0..<i] @ drop i zs"
  let ?nxt = "map g [0..<i + 8] @ drop (i + 8) zs"
  from Suc.hyps(2) have kc: "k < c" by simp
  then have lt: "i < 8 * c" and fit: "i + 8 \<le> n"
    using assms(4) by (simp_all add: i_def)
  have ld: "load8 (Some xs) i = Inr (take 8 (drop i xs))"
    "load8 (Some ys) i = Inr (take 8 (drop i ys))"
    using fit assms(1,2) by (simp_all add: load8_def)
  have len: "length ?cur = n"
    using fit assms(3) by simp
  have "take i ?cur @ map2 h (take 8 (drop i xs)) (take 8 (drop i ys)) @ drop (i + 8) ?cur
          = map g [0..<i] @ map g [i..<i + 8] @ drop (i + 8) zs"
    using fit assms(1,2) by (simp add: map2_chunk add.commute g_def)
  also have "\<dots> = ?nxt"
    using upt_add_eq_append [of 0 i 8] by simp
  finally have "store8 (Some ?cur) i (map2 h (take 8 (drop i xs)) (take 8 (drop i ys)))
                  = Inr (Some ?nxt)"
    using fit len by (simp add: store8_def)
  then have one: "body i (Some ?cur) = Inr (Some ?nxt)"
    by (simp add: body_def ld)
  have next_k: "8 * Suc k = i + 8"
    by (simp add: i_def)
  have "for_step8 (8 * Suc k) (8 * c) body
          (Some (map g [0..<8 * Suc k] @ drop (8 * Suc k) zs))
        = Inr (Some (map g [0..<8 * c] @ drop (8 * c) zs))"
    unfolding body_def g_def using Suc.hyps(2) kc by (intro Suc.hyps(1)) simp_all
  then have rest: "for_step8 (i + 8) (8 * c) body (Some ?nxt)
                     = Inr (Some (map g [0..<8 * c] @ drop (8 * c) zs))"
    by (simp only: next_k)
  have "for_step8 i (8 * c) body (Some ?cur)
          = bindf (body i (Some ?cur)) (for_step8 (i + 8) (8 * c) body)"
    using lt by (rule for_step8_step)
  also have "\<dots> = Inr (Some (map g [0..<8 * c] @ drop (8 * c) zs))"
    by (simp only: one bindf_Inr rest)
  finally show ?case
    by (simp only: body_def g_def i_def)
qed

text \<open>Both loops, on a cleared buffer of \<open>n\<close> cells.\<close>

lemma simd_loops:
  assumes "length xs = n" and "n \<le> length ys"
  shows "bindf (for_step8 0 (8 * (n div 8))
                  (\<lambda>i result_data.
                     bindf (load8 (Some xs) i) (\<lambda>va.
                     bindf (load8 (Some ys) i) (\<lambda>vb.
                     store8 result_data i (map2 h va vb))))
                  (Some (replicate n 0)))
           (\<lambda>result_data.
              bindf (for_upto (8 * (n div 8)) n
                       (\<lambda>i result_data.
                          bindf (rdp (Some xs) i) (\<lambda>x.
                          bindf (rdp (Some ys) i) (\<lambda>y.
                          wrp result_data i (h x y))))
                       result_data) F)
         = F (Some (map (\<lambda>j. h (xs ! j) (ys ! j)) [0..<n]))"
proof -
  let ?g = "\<lambda>j. h (xs ! j) (ys ! j)"
  let ?m = "8 * (n div 8)"
  let ?zs = "replicate n (0::real)"
  let ?cur = "map ?g [0..<?m] @ drop ?m ?zs"
  have m: "?m \<le> n" by simp
  have "for_step8 (8 * 0) ?m
           (\<lambda>i result_data.
              bindf (load8 (Some xs) i) (\<lambda>va.
              bindf (load8 (Some ys) i) (\<lambda>vb.
              store8 result_data i (map2 h va vb))))
           (Some (map ?g [0..<8 * 0] @ drop (8 * 0) ?zs))
         = Inr (Some ?cur)"
    using assms _ m by (rule simd_chunks) simp_all
  then have chunks: "for_step8 0 ?m
           (\<lambda>i result_data.
              bindf (load8 (Some xs) i) (\<lambda>va.
              bindf (load8 (Some ys) i) (\<lambda>vb.
              store8 result_data i (map2 h va vb))))
           (Some ?zs) = Inr (Some ?cur)"
    by simp
  have len: "length ?cur = n" using m by simp
  have "for_upto ?m n
           (\<lambda>i result_data.
              bindf (rdp (Some xs) i) (\<lambda>x.
              bindf (rdp (Some ys) i) (\<lambda>y.
              wrp result_data i (h x y))))
           (Some ?cur)
        = Inr (Some (take ?m ?cur @ map ?g [?m..<n] @ drop n ?cur))"
    by (rule for_upto_store) (use assms len m in simp_all)
  moreover have "take ?m ?cur @ map ?g [?m..<n] @ drop n ?cur = map ?g [0..<n]"
  proof -
    have "[0..<n] = [0..<?m] @ [?m..<n]"
      using m by (metis le_add_diff_inverse upt_add_eq_append zero_le)
    then have "map ?g [0..<n] = map ?g [0..<?m] @ map ?g [?m..<n]"
      by (metis map_append)
    then show ?thesis using len m by simp
  qed
  ultimately show ?thesis
    using chunks by simp
qed

lemma c_rem_nonneg: "0 \<le> x \<Longrightarrow> x - c_rem x 8 = 8 * (x div 8)"
  by (simp add: c_rem_def minus_mod_eq_mult_div)

text \<open>What \<^verbatim>\<open>ggml_new_tensor_2d_optimized\<close> returns has the extents it was asked for.\<close>

lemma new_tensor_shape:
  assumes "ggml_new_tensor_2d_optimized env p ty n0 n1 = Inr (Some t, p')"
  shows "pt_ne0 t = n0 \<and> pt_ne1 t = n1 \<and> pt_ne2 t = 1 \<and> pt_ne3 t = 1 \<and> pt_type t = ty"
  using assms
  by (auto simp: ggml_new_tensor_2d_optimized_def bindf_def Let_def
      split: sum.splits option.splits if_splits)

lemma cleared_tensor_small:
  assumes "pt_ne0 t = n0" and "pt_ne1 t = n1" and "pt_ne2 t = 1" and "pt_ne3 t = 1"
    and "pt_type t = ty" and "0 \<le> n0 * n1" and "n0 * n1 < 2 ^ 31"
  shows "cleared_tensor t =
           \<lparr>ne0 = n0, ne1 = n1, ne2 = 1, ne3 = 1, data = Some (replicate (nat (n0 * n1)) 0),
            type = ty\<rparr>"
proof -
  have "(n0 * n1) mod 2 ^ 64 = n0 * n1"
    using assms(6,7) by simp
  then have s: "size_t_of_int (n0 * n1) = nat (n0 * n1)"
    by (simp add: size_t_of_int_def)
  have "nat (n0 * n1) < 2 ^ 31"
    using assms(6,7) by simp
  then have "nat (n0 * n1) * 4 < 2 ^ 64"
    by simp
  then have "((size_t_of_int (n0 * n1) * 4) mod 2 ^ 64) div 4 = nat (n0 * n1)"
    by (simp add: s)
  then show ?thesis
    using assms(1-5) by (simp add: cleared_tensor_def)
qed

lemma nat_simd_size:
  assumes "0 \<le> x"
  shows "nat (x - c_rem x 8) = 8 * (nat x div 8)"
proof -
  have "nat (x - c_rem x 8) = nat (8 * (x div 8))"
    using assms by (simp only: c_rem_nonneg)
  also have "\<dots> = 8 * nat (x div 8)"
    by (simp add: nat_mult_distrib)
  also have "nat (x div 8) = nat x div 8"
    using assms by (simp add: nat_div_distrib)
  finally show ?thesis .
qed

lemma ggml_mul_simd_closed:
  assumes "wf_tensor a" and "data a = Some xs" and "data b = Some ys" and "length xs \<le> length ys"
    and "ne0 a * ne1 a < 2 ^ 31"
    and "ggml_new_tensor_2d_optimized env pool 0 (ne0 a) (ne1 a) = Inr (Some t, pool')"
  shows "ggml_mul_simd env pool (Some a) (Some b) =
           Inr (Some \<lparr>ne0 = ne0 a, ne1 = ne1 a, ne2 = 1, ne3 = 1,
                       data = Some (map (\<lambda>i. fmul (xs ! i) (ys ! i)) [0..<length xs]), type = 0\<rparr>,
                pool')"
proof -
  from assms(1,2) have len: "nat (ne0 a * ne1 a) = length xs" and nonneg: "0 \<le> ne0 a * ne1 a"
    by (auto elim!: wf_tensorD)
  from new_tensor_shape [OF assms(6)]
  have "cleared_tensor t =
          \<lparr>ne0 = ne0 a, ne1 = ne1 a, ne2 = 1, ne3 = 1,
           data = Some (replicate (nat (ne0 a * ne1 a)) 0), type = 0\<rparr>"
    using nonneg assms(5) by (intro cleared_tensor_small) simp_all
  then have ct: "cleared_tensor t =
          \<lparr>ne0 = ne0 a, ne1 = ne1 a, ne2 = 1, ne3 = 1,
           data = Some (replicate (length xs) 0), type = 0\<rparr>"
    by (simp only: len)
  have sz: "nat (ne0 a * ne1 a - c_rem (ne0 a * ne1 a) 8) = 8 * (length xs div 8)"
    using nat_simd_size [OF nonneg] by (simp only: len)
  show ?thesis
    unfolding ggml_mul_simd_def Let_def
    by (simp add: assms(2,3,6) ct sz len simd_loops [OF refl assms(4)])
qed

lemma ggml_add_simd_closed:
  assumes "wf_tensor a" and "data a = Some xs" and "data b = Some ys" and "length xs \<le> length ys"
    and "ne0 a * ne1 a < 2 ^ 31"
    and "ggml_new_tensor_2d_optimized env pool 0 (ne0 a) (ne1 a) = Inr (Some t, pool')"
  shows "ggml_add_simd env pool (Some a) (Some b) =
           Inr (Some \<lparr>ne0 = ne0 a, ne1 = ne1 a, ne2 = 1, ne3 = 1,
                       data = Some (map (\<lambda>i. fadd (xs ! i) (ys ! i)) [0..<length xs]), type = 0\<rparr>,
                pool')"
proof -
  from assms(1,2) have len: "nat (ne0 a * ne1 a) = length xs" and nonneg: "0 \<le> ne0 a * ne1 a"
    by (auto elim!: wf_tensorD)
  from new_tensor_shape [OF assms(6)]
  have "cleared_tensor t =
          \<lparr>ne0 = ne0 a, ne1 = ne1 a, ne2 = 1, ne3 = 1,
           data = Some (replicate (nat (ne0 a * ne1 a)) 0), type = 0\<rparr>"
    using nonneg assms(5) by (intro cleared_tensor_small) simp_all
  then have ct: "cleared_tensor t =
          \<lparr>ne0 = ne0 a, ne1 = ne1 a, ne2 = 1, ne3 = 1,
           data = Some (replicate (length xs) 0), type = 0\<rparr>"
    by (simp only: len)
  have sz: "nat (ne0 a * ne1 a - c_rem (ne0 a * ne1 a) 8) = 8 * (length xs div 8)"
    using nat_simd_size [OF nonneg] by (simp only: len)
  show ?thesis
    unfolding ggml_add_simd_def Let_def
    by (simp add: assms(2,3,6) ct sz len simd_loops [OF refl assms(4)])
qed

text \<open>When the elementwise operations return \<^verbatim>\<open>NULL\<close>.\<close>

lemma bindf_pair_not_None: "bindf m (\<lambda>y. Inr (Some (g y), p)) \<noteq> Inr (None, q)"
  by (cases m) simp_all

lemma bindf2_pair_not_None:
  "bindf m (\<lambda>x. bindf (f x) (\<lambda>y. Inr (Some (g y), p))) \<noteq> Inr (None, q)"
  by (cases m) (simp_all add: bindf_pair_not_None)

lemma ggml_mul_null:
  "(ggml_mul (Some ta) (Some tb) = Inr None) =
     (data ta = None \<or> data tb = None \<or> ggml_new_tensor_2d 0 (ne0 ta) (ne1 ta) = None)"
  by (auto simp: ggml_mul_def bindf_Some_not_None split: option.splits)

lemma ggml_add_null:
  "(ggml_add (Some ta) (Some tb) = Inr None) =
     (data ta = None \<or> data tb = None \<or> ggml_new_tensor_2d 0 (ne0 ta) (ne1 ta) = None)"
  by (auto simp: ggml_add_def bindf_Some_not_None split: option.splits)

lemma ggml_mul_simd_null:
  "(\<exists>p'. ggml_mul_simd env pool (Some ta) (Some tb) = Inr (None, p')) =
     (data ta = None \<or> data tb = None
      \<or> (\<exists>p'. ggml_new_tensor_2d_optimized env pool 0 (ne0 ta) (ne1 ta) = Inr (None, p')))"
proof (cases "data ta = None \<or> data tb = None")
  case True
  then show ?thesis by (auto simp: ggml_mul_simd_def)
next
  case False
  show ?thesis
  proof (cases "ggml_new_tensor_2d_optimized env pool 0 (ne0 ta) (ne1 ta)")
    case (Inl e)
    with False show ?thesis by (simp add: ggml_mul_simd_def)
  next
    case (Inr r)
    obtain t p1 where r: "r = (t, p1)" by (cases r)
    show ?thesis
    proof (cases t)
      case None
      with False Inr r show ?thesis by (simp add: ggml_mul_simd_def)
    next
      case (Some u)
      with False Inr r show ?thesis
        by (simp add: ggml_mul_simd_def Let_def bindf2_pair_not_None)
    qed
  qed
qed

lemma ggml_add_simd_null:
  "(\<exists>p'. ggml_add_simd env pool (Some ta) (Some tb) = Inr (None, p')) =
     (data ta = None \<or> data tb = None
      \<or> (\<exists>p'. ggml_new_tensor_2d_optimized env pool 0 (ne0 ta) (ne1 ta) = Inr (None, p')))"
proof (cases "data ta = None \<or> data tb = None")
  case True
  then show ?thesis by (auto simp: ggml_add_simd_def)
next
  case False
  show ?thesis
  proof (cases "ggml_new_tensor_2d_optimized env pool 0 (ne0 ta) (ne1 ta)")
    case (Inl e)
    with False show ?thesis by (simp add: ggml_add_simd_def)
  next
    case (Inr r)
    obtain t p1 where r: "r = (t, p1)" by (cases r)
    show ?thesis
    proof (cases t)
      case None
      with False Inr r show ?thesis by (simp add: ggml_add_simd_def)
    next
      case (Some u)
      with False Inr r show ?thesis
        by (simp add: ggml_add_simd_def Let_def bindf2_pair_not_None)
    qed
  qed
qed

text \<open>The extents of the second operand are never read.\<close>

lemma ggml_mul_extents:
  "ggml_mul a (Some (tb\<lparr>ne0 := e0, ne1 := e1, ne2 := e2, ne3 := e3\<rparr>)) = ggml_mul a (Some tb)"
proof -
  have d: "data (tb\<lparr>ne0 := e0, ne1 := e1, ne2 := e2, ne3 := e3\<rparr>) = data tb"
    by simp
  show ?thesis
    unfolding ggml_mul_def option.case d by (rule refl)
qed

lemma ggml_add_extents:
  "ggml_add a (Some (tb\<lparr>ne0 := e0, ne1 := e1, ne2 := e2, ne3 := e3\<rparr>)) = ggml_add a (Some tb)"
proof -
  have d: "data (tb\<lparr>ne0 := e0, ne1 := e1, ne2 := e2, ne3 := e3\<rparr>) = data tb"
    by simp
  show ?thesis
    unfolding ggml_add_def option.case d by (rule refl)
qed

lemma ggml_mul_simd_extents:
  "ggml_mul_simd env pool a (Some (tb\<lparr>ne0 := e0, ne1 := e1, ne2 := e2, ne3 := e3\<rparr>))
     = ggml_mul_simd env pool a (Some tb)"
proof -
  have d: "data (tb\<lparr>ne0 := e0, ne1 := e1, ne2 := e2, ne3 := e3\<rparr>) = data tb"
    by simp
  show ?thesis
    unfolding ggml_mul_simd_def option.case d by (rule refl)
qed

lemma ggml_add_simd_extents:
  "ggml_add_simd env pool a (Some (tb\<lparr>ne0 := e0, ne1 := e1, ne2 := e2, ne3 := e3\<rparr>))
     = ggml_add_simd env pool a (Some tb)"
proof -
  have d: "data (tb\<lparr>ne0 := e0, ne1 := e1, ne2 := e2, ne3 := e3\<rparr>) = data tb"
    by simp
  show ?thesis
    unfolding ggml_add_simd_def option.case d by (rule refl)
qed


section \<open>Properties\<close>

subsection \<open>Updating the attention weight of a kernel\<close>

text \<open>
  Claim C8 says that, for every live kernel \<open>k\<close> and every weight \<open>w\<close>,
  \<^verbatim>\<open>update_kernel_attention\<close> returns an error code and leaves the kernel unchanged
  exactly when \<open>w\<close> is outside the interval \<open>[0, 1]\<close>. The guard of the function is
  \<^verbatim>\<open>new_weight < 0.0f || new_weight > 1.0f\<close>, and both comparisons are false for a
  NaN: the call returns \<open>0\<close> and stores the NaN as the attention weight, although
  NaN is not in the interval. For every other weight the function does what the
  claim says: outside the interval (\<open>-0.1\<close> and \<open>1.1\<close> in particular) it returns
  \<open>-1\<close> and leaves the kernel as it was, inside it (\<open>0\<close> and \<open>1\<close> in particular) it
  returns \<open>0\<close> and the kernel differs from \<open>k\<close> in its attention weight only, which
  is \<open>w\<close>.
\<close>

theorem update_kernel_attention_nan:
  "\<not> in_unit_interval NaN
   \<and> update_kernel_attention (Some k) NaN = (0, Some (k\<lparr>attention_weight := NaN\<rparr>))
   \<and> update_kernel_attention (Some k) w =
        (if in_unit_interval w \<or> w = NaN then (0, Some (k\<lparr>attention_weight := w\<rparr>))
         else (- 1, Some k))
   \<and> update_kernel_attention (Some k) (Num (- 0.1)) = (- 1, Some k)
   \<and> update_kernel_attention (Some k) (Num 1.1) = (- 1, Some k)
   \<and> update_kernel_attention (Some k) (Num 0) = (0, Some (k\<lparr>attention_weight := Num 0\<rparr>))
   \<and> update_kernel_attention (Some k) (Num 1) = (0, Some (k\<lparr>attention_weight := Num 1\<rparr>))"
  by (cases w) (simp_all add: update_kernel_attention_def in_unit_interval_def)

theorem update_kernel_attention_nan_witness:
  "update_kernel_attention
     (Some \<lparr>tensor_field = None, attention_weight = Num 0.8, meta_level = 0, kernel_id = 7\<rparr>) NaN
   = (0, Some \<lparr>tensor_field = None, attention_weight = NaN, meta_level = 0, kernel_id = 7\<rparr>)
   \<and> update_kernel_attention
     (Some \<lparr>tensor_field = None, attention_weight = Num 0.8, meta_level = 0, kernel_id = 7\<rparr>)
     (Num 0.9)
   = (0, Some \<lparr>tensor_field = None, attention_weight = Num 0.9, meta_level = 0, kernel_id = 7\<rparr>)
   \<and> update_kernel_attention
     (Some \<lparr>tensor_field = None, attention_weight = Num 0.8, meta_level = 0, kernel_id = 7\<rparr>)
     Pos_Inf
   = (- 1, Some \<lparr>tensor_field = None, attention_weight = Num 0.8, meta_level = 0, kernel_id = 7\<rparr>)"
  using update_kernel_attention_nan
    [of "\<lparr>tensor_field = None, attention_weight = Num 0.8, meta_level = 0, kernel_id = 7\<rparr>"
        "Num 0.9"]
    update_kernel_attention_nan
    [of "\<lparr>tensor_field = None, attention_weight = Num 0.8, meta_level = 0, kernel_id = 7\<rparr>"
        Pos_Inf]
  by (simp add: in_unit_interval_def)

subsection \<open>The meta-level transform at level 0\<close>

text \<open>
  Claim C5. For every input tensor (two effective dimensions, a buffer of
  \<open>ne0 * ne1\<close> elements), \<^verbatim>\<open>meta_cognitive_transform\<close> at level \<open>0\<close> returns a tensor
  with the extents of the input and exactly the elements of the input: the
  scaling factor is \<open>1\<close> and the oscillation term is \<open>sin 0 = 0\<close>. The result
  carries the type tag \<open>0\<close>, the only one the sources use.
\<close>

theorem meta_cognitive_transform_level0:
  assumes "wf_tensor inp"
  shows "meta_cognitive_transform (Some inp) 0 = Inr (Some (inp\<lparr>type := 0\<rparr>))"
proof -
  from assms obtain xs where xs: "data inp = Some xs" "length xs = nat (ne0 inp * ne1 inp)"
    and ext: "0 \<le> ne0 inp" "0 \<le> ne1 inp" "ne2 inp = 1" "ne3 inp = 1"
    by (rule wf_tensorD)
  let ?n = "nat (ne0 inp * ne1 inp)"
  have loop: "for_upto 0 ?n
                (\<lambda>i output_data. bindf (rdp (Some xs) i) (\<lambda>x. wrp output_data i x))
                (Some (replicate ?n 0))
              = Inr (Some (take 0 (replicate ?n 0) @ map (\<lambda>i. xs ! i) [0..<?n]
                             @ drop ?n (replicate ?n 0)))"
    by (rule for_upto_store) (use xs in simp_all)
  have "map (\<lambda>i. xs ! i) [0..<?n] = xs"
    using map_nth [of xs] xs(2) by simp
  with loop have loop': "for_upto 0 ?n
                (\<lambda>i output_data. bindf (rdp (Some xs) i) (\<lambda>x. wrp output_data i x))
                (Some (replicate ?n 0)) = Inr (Some xs)"
    by simp
  have nonneg: "0 \<le> ne0 inp * ne1 inp" using ext by simp
  show ?thesis
    using xs ext loop'
    by (simp add: meta_cognitive_transform_def ggml_new_tensor_2d_Some [OF nonneg])
qed

theorem meta_cognitive_transform_level0_witness:
  "wf_tensor \<lparr>ne0 = 2, ne1 = 2, ne2 = 1, ne3 = 1, data = Some [1, 2.5, - 3, 4], type = 0\<rparr>
   \<and> meta_cognitive_transform
        (Some \<lparr>ne0 = 2, ne1 = 2, ne2 = 1, ne3 = 1, data = Some [1, 2.5, - 3, 4], type = 0\<rparr>) 0
     = Inr (Some \<lparr>ne0 = 2, ne1 = 2, ne2 = 1, ne3 = 1, data = Some [1, 2.5, - 3, 4], type = 0\<rparr>)"
proof -
  have wf: "wf_tensor \<lparr>ne0 = 2, ne1 = 2, ne2 = 1, ne3 = 1, data = Some [1, 2.5, - 3, 4], type = 0\<rparr>"
    by (simp add: wf_tensor_def)
  show ?thesis
    using wf meta_cognitive_transform_level0 [OF wf] by simp
qed

subsection \<open>The attention matrix\<close>




subsection \<open>Elementwise operations on tensors of different shapes\<close>




subsection \<open>Decoding a tensor into a hypergraph\<close>

text \<open>
  The decoding rule, where the cells that the loops visit exist. For a tensor
  \<open>t\<close> with buffer \<open>xs\<close> and a hypergraph \<open>hg\<close> with \<open>n\<close>
  nodes (an \<open>n \<times> n\<close> adjacency matrix and \<open>n\<close> node weights),
  \<^verbatim>\<open>decode_tensor_to_hypergraph\<close> returns \<open>0\<close>, whether or not \<open>n\<close> equals the first
  extent of \<open>t\<close>, and visits exactly the cells \<open>(i, j)\<close> with
  \<open>i, j < m = min n (ne0 t)\<close>, row by row. At each visited cell, whose value \<open>v\<close> is
  read at \<open>i * ne1 t + j\<close>, it applies the rule \<open>decode_cell_spec\<close>: the adjacency
  entry \<open>(i, j)\<close> becomes 1 if \<open>v > 0.5\<close> and 0 otherwise, and if \<open>v > 0\<close> the weights
  of node \<open>i\<close> and of node \<open>j\<close> are each replaced by \<open>(old + v) / 2\<close>. The rule runs
  once for each visited cell, so a symmetric pair \<open>(i, j)\<close>, \<open>(j, i)\<close> averages both
  weights twice. Adjacency entries outside the first \<open>m\<close> rows and columns and
  weights of nodes from \<open>m\<close> on are left as they were. The hypothesis on \<open>xs\<close>
  says that the visited cells lie inside the buffer of the tensor.
\<close>

theorem decode_tensor_to_hypergraph_rule:
  assumes "data t = Some xs"
    and "adjacency_matrix hg = Some adj" and "length adj = node_count hg * node_count hg"
    and "node_weights hg = Some ws" and "length ws = node_count hg"
    and "m = min (node_count hg) (size_t_of_int (ne0 t))"
    and "\<forall>i<m. \<forall>j<m. i * size_t_of_int (ne1 t) + j < length xs"
  shows "\<exists>adj' ws'.
           decode_tensor_to_hypergraph (Some t) (Some hg) =
             Inr (0, Some (hg\<lparr>adjacency_matrix := Some adj', node_weights := Some ws'\<rparr>))
         \<and> (adj', ws') = decode_spec (node_count hg) m
                            (\<lambda>i j. xs ! (i * size_t_of_int (ne1 t) + j)) (adj, ws)
         \<and> (\<forall>i j. i < node_count hg \<and> j < node_count hg \<longrightarrow>
               adj' ! (i * node_count hg + j) =
                 (if i < m \<and> j < m
                  then (if xs ! (i * size_t_of_int (ne1 t) + j) > 0.5 then 1 else 0)
                  else adj ! (i * node_count hg + j)))
         \<and> (\<forall>k. m \<le> k \<longrightarrow> ws' ! k = ws ! k)"
proof -
  let ?cell = "\<lambda>i j. xs ! (i * size_t_of_int (ne1 t) + j)"
  let ?r = "decode_spec (node_count hg) m ?cell (adj, ws)"
  have self: "with_arrays hg (adj, ws) = hg"
    using assms(2,4) by (rule with_arrays_self)
  have "decode_tensor_to_hypergraph (Some t) (Some (with_arrays hg (adj, ws))) =
           Inr (0, Some (with_arrays hg ?r))"
    using assms(1,6,7) by (rule decode_tensor_to_hypergraph_sim) (simp_all add: assms(3,5))
  then have "decode_tensor_to_hypergraph (Some t) (Some hg) = Inr (0, Some (with_arrays hg ?r))"
    by (simp only: self)
  then have run: "decode_tensor_to_hypergraph (Some t) (Some hg) =
           Inr (0, Some (hg\<lparr>adjacency_matrix := Some (fst ?r), node_weights := Some (snd ?r)\<rparr>))"
    by (simp add: with_arrays_def)
  have m_le: "m \<le> node_count hg" using assms(6) by simp
  have cells: "fst ?r ! (i * node_count hg + j) =
                 (if i < m \<and> j < m then (if ?cell i j > 0.5 then 1 else 0)
                  else adj ! (i * node_count hg + j))"
    if "i < node_count hg" and "j < node_count hg" for i j
    using assms(3) m_le that by (rule decode_spec_adjacency)
  have frame: "snd ?r ! k = ws ! k" if "m \<le> k" for k
    using that by (rule decode_spec_weights_frame)
  show ?thesis
    using run cells frame
    by (intro exI [of _ "fst ?r"] exI [of _ "snd ?r"]) simp
qed

theorem decode_tensor_to_hypergraph_rule_witness:
  "decode_tensor_to_hypergraph
     (Some \<lparr>ne0 = 3, ne1 = 3, ne2 = 1, ne3 = 1,
            data = Some [0, 0.8, 0.3, 0.8, 0, 0, 0.3, 0, 0], type = 0\<rparr>)
     (Some \<lparr>node_count = 2, link_count = 0, node_weights = Some [0, 0],
            link_weights = Some [], adjacency_matrix = Some [0, 0, 0, 0]\<rparr>)
   = Inr (0, Some \<lparr>node_count = 2, link_count = 0, node_weights = Some [0.6, 0.6],
                   link_weights = Some [], adjacency_matrix = Some [0, 1, 1, 0]\<rparr>)"
proof -
  let ?t = "\<lparr>ne0 = 3, ne1 = 3, ne2 = 1, ne3 = 1,
             data = Some [0, 0.8, 0.3, 0.8, 0, 0, 0.3, 0, 0::real], type = 0\<rparr>"
  let ?hg = "\<lparr>node_count = 2, link_count = 0, node_weights = Some [0, 0::real],
              link_weights = Some [], adjacency_matrix = Some [0, 0, 0, 0::int]\<rparr>"
  have s3: "size_t_of_int 3 = 3"
    by (simp add: size_t_of_int_def)
  have upt2: "[0..<2] = [0, 1]"
    by (simp add: upt_rec)
  have bound: "\<forall>i<2. \<forall>j<2. i * size_t_of_int (ne1 ?t) + j
                  < length [0, 0.8, 0.3, 0.8, 0, 0, 0.3, 0, 0::real]"
    by (simp add: s3 less_Suc_eq numeral_2_eq_2)
  have h: "data ?t = Some [0, 0.8, 0.3, 0.8, 0, 0, 0.3, 0, 0]"
    "adjacency_matrix ?hg = Some [0, 0, 0, 0]"
    "length [0, 0, 0, 0::int] = node_count ?hg * node_count ?hg"
    "node_weights ?hg = Some [0, 0]" "length [0, 0::real] = node_count ?hg"
    "2 = min (node_count ?hg) (size_t_of_int (ne0 ?t))"
    by (simp_all add: s3)
  have "\<exists>adj' ws'.
          decode_tensor_to_hypergraph (Some ?t) (Some ?hg) =
             Inr (0, Some (?hg\<lparr>adjacency_matrix := Some adj', node_weights := Some ws'\<rparr>))
        \<and> (adj', ws') = decode_spec (node_count ?hg) 2
             (\<lambda>i j. [0, 0.8, 0.3, 0.8, 0, 0, 0.3, 0, 0] ! (i * size_t_of_int (ne1 ?t) + j))
             ([0, 0, 0, 0], [0, 0])"
    using decode_tensor_to_hypergraph_rule [OF h bound] by blast
  then obtain adj' ws' where r: "decode_tensor_to_hypergraph (Some ?t) (Some ?hg) =
             Inr (0, Some (?hg\<lparr>adjacency_matrix := Some adj', node_weights := Some ws'\<rparr>))"
      "(adj', ws') = decode_spec (node_count ?hg) 2
             (\<lambda>i j. [0, 0.8, 0.3, 0.8, 0, 0, 0.3, 0, 0] ! (i * size_t_of_int (ne1 ?t) + j))
             ([0, 0, 0, 0], [0, 0])"
    by blast
  from r(2) have "adj' = [0, 1, 1, 0]" and "ws' = [0.6, 0.6]"
    by (simp_all add: s3 upt2 decode_spec_def decode_cell_spec_def Let_def)
  with r(1) show ?thesis
    by simp
qed

text \<open>
  Claim C2 says that, for every tensor with a buffer and every hypergraph,
  \<^verbatim>\<open>decode_tensor_to_hypergraph\<close> applies its rule to the cells of the first
  \<open>m = min node_count ne0\<close> rows and columns and raises no error for a size
  mismatch. The function clips the two loops to the first extent of the tensor
  and leaves the second extent out of the bound, although it reads the cell
  \<open>(i, j)\<close> at index \<open>i * ne1 + j\<close>. Take the \<open>2 \<times> 1\<close> tensor that
  \<^verbatim>\<open>ggml_new_tensor_2d\<close> makes (the tensor field of a kernel created with the shape
  \<open>{2, 1}\<close>) and the hypergraph that \<^verbatim>\<open>create_hypergraph(2, 0)\<close> makes: then \<open>m = 2\<close>, and
  the cell \<open>(1, 1)\<close> is read at index \<open>2\<close> of a buffer that holds two floats, an
  access outside the buffer.
\<close>

theorem decode_tensor_to_hypergraph_non_square:
  "ggml_new_tensor_2d 0 2 1 =
     Some \<lparr>ne0 = 2, ne1 = 1, ne2 = 1, ne3 = 1, data = Some [0, 0], type = 0\<rparr>
   \<and> wf_tensor \<lparr>ne0 = 2, ne1 = 1, ne2 = 1, ne3 = 1, data = Some [0, 0], type = 0\<rparr>
   \<and> decode_tensor_to_hypergraph (ggml_new_tensor_2d 0 2 1) (create_hypergraph 2 0)
       = Inl Out_Of_Bounds"
proof -
  have t: "ggml_new_tensor_2d 0 2 1 =
     Some \<lparr>ne0 = 2, ne1 = 1, ne2 = 1, ne3 = 1, data = Some [0, 0], type = 0\<rparr>"
    by (simp add: ggml_new_tensor_2d_def calloc_float_def numeral_2_eq_2)
  have s1: "size_t_of_int 1 = 1" and s2: "size_t_of_int 2 = 2"
    by (simp_all add: size_t_of_int_def)
  have "decode_tensor_to_hypergraph
          (Some \<lparr>ne0 = 2, ne1 = 1, ne2 = 1, ne3 = 1, data = Some [0, 0], type = 0\<rparr>)
          (create_hypergraph 2 0) = Inl Out_Of_Bounds"
    by (simp add: decode_tensor_to_hypergraph_def create_hypergraph_def decode_cell_def s1 s2
        for_upto.simps rdp_def wrp_def numeral_2_eq_2)
  with t show ?thesis
    by (simp add: wf_tensor_def)
qed

subsection \<open>Encoding a hypergraph and decoding it again\<close>

text \<open>
  The round trip, where the \<open>n * n\<close> cells of the tensor can be counted by an
  \<^verbatim>\<open>int\<close>. Let \<open>hg\<close> be a hypergraph with \<open>n\<close> nodes whose adjacency entries
  are all 0 or 1 and whose node weights all equal \<open>w\<close>, and let \<open>hg2\<close> be a
  hypergraph with the same number of nodes (a fresh one in particular).
  Decoding the tensor that \<^verbatim>\<open>encode_hypergraph_to_tensor\<close> builds from \<open>hg\<close> into
  \<open>hg2\<close> succeeds and leaves \<open>hg2\<close> with the adjacency matrix of \<open>hg\<close> if
  \<open>w > 0.5\<close>, and with the all-zero matrix if \<open>w \<le> 0.5\<close>.
\<close>

theorem encode_decode_round_trip:
  assumes "wf_hypergraph hg" and "wf_hypergraph hg2"
    and "node_count hg2 = node_count hg" and "node_count hg * node_count hg < 2 ^ 31"
    and "adjacency_matrix hg = Some A" and "set A \<subseteq> {0, 1}"
    and "node_weights hg = Some (replicate (node_count hg) w)"
  shows "\<exists>t hg2'. encode_hypergraph_to_tensor (Some hg) = Inr (Some t)
           \<and> decode_tensor_to_hypergraph (Some t) (Some hg2) = Inr (0, Some hg2')
           \<and> adjacency_matrix hg2' =
               Some (if w > 0.5 then A else replicate (node_count hg * node_count hg) 0)"
proof -
  let ?n = "node_count hg"
  let ?W = "replicate ?n w"
  define T where "T = map (\<lambda>k. real_of_int (A ! k) * ((?W ! (k div ?n) + ?W ! (k mod ?n)) * 0.5))
                        [0..<?n * ?n]"
  let ?t = "\<lparr>ne0 = int ?n, ne1 = int ?n, ne2 = 1, ne3 = 1, data = Some T, type = 0\<rparr>"
  from assms(1,5) have lenA: "length A = ?n * ?n"
    by (auto elim!: wf_hypergraphD)
  have enc: "encode_hypergraph_to_tensor (Some hg) = Inr (Some ?t)"
    unfolding T_def using assms(5) lenA assms(7) _ assms(4)
    by (rule encode_hypergraph_to_tensor_closed) simp
  from assms(2,3) obtain a2 w2 where hg2: "adjacency_matrix hg2 = Some a2"
      "length a2 = ?n * ?n" "node_weights hg2 = Some w2" "length w2 = ?n"
    by (auto elim!: wf_hypergraphD)
  have "?n \<le> ?n * ?n" by (cases "?n") simp_all
  then have "?n < 2 ^ 31" using assms(4) by (rule le_less_trans)
  then have "?n < 2 ^ 64" by simp
  then have sz: "size_t_of_int (int ?n) = ?n"
    by (rule size_t_of_int_nat)
  have lenT: "length T = ?n * ?n"
    by (simp add: T_def)
  have valT: "T ! k = real_of_int (A ! k) * w" if "k < ?n * ?n" for k
  proof -
    have "0 < ?n" using that by (cases "?n") simp_all
    then have "k mod ?n < ?n" by simp
    moreover have "k div ?n < ?n" using that by (simp add: less_mult_imp_div_less)
    ultimately show ?thesis using that by (simp add: T_def)
  qed
  let ?B = "\<lambda>k. if T ! k > 0.5 then 1 else (0::int)"
  have bound: "\<forall>i<?n. \<forall>j<?n. i * size_t_of_int (ne1 ?t) + j < length T"
    using cell_index_less [of _ ?n] by (simp add: sz lenT)
  have "decode_tensor_to_hypergraph (Some ?t) (Some (with_arrays hg2 (a2, w2))) =
               Inr (0, Some (with_arrays hg2
                  (decode_spec (node_count hg2) ?n
                     (\<lambda>i j. T ! (i * size_t_of_int (ne1 ?t) + j)) (a2, w2))))"
    using _ _ bound by (rule decode_tensor_to_hypergraph_sim) (simp_all add: sz hg2 assms(3))
  then have dec: "decode_tensor_to_hypergraph (Some ?t) (Some hg2) =
               Inr (0, Some (with_arrays hg2
                  (decode_spec ?n ?n (\<lambda>i j. T ! (i * ?n + j)) (a2, w2))))"
    by (simp add: sz assms(3) with_arrays_self [OF hg2(1,3)])
  let ?r = "decode_spec ?n ?n (\<lambda>i j. T ! (i * ?n + j)) (a2, w2)"
  have fst_r: "fst ?r = map ?B [0..<?n * ?n]"
    using hg2(2) by (rule fst_decode_spec_full)
  have "map ?B [0..<?n * ?n] = (if w > 0.5 then A else replicate (?n * ?n) 0)"
  proof (rule nth_equalityI)
    show "length (map ?B [0..<?n * ?n]) = length (if w > 0.5 then A else replicate (?n * ?n) 0)"
      using lenA by simp
  next
    fix k
    assume "k < length (map ?B [0..<?n * ?n])"
    then have k: "k < ?n * ?n" by simp
    then have "A ! k \<in> set A" using lenA by simp
    then have "A ! k = 0 \<or> A ! k = 1" using assms(6) by auto
    then show "map ?B [0..<?n * ?n] ! k = (if w > 0.5 then A else replicate (?n * ?n) 0) ! k"
      using k by (auto simp: valT)
  qed
  with fst_r have "fst ?r = (if w > 0.5 then A else replicate (?n * ?n) 0)"
    by simp
  with enc dec show ?thesis
    by simp
qed
theorem encode_decode_round_trip_witness:
  "(\<exists>t hg2'. encode_hypergraph_to_tensor
        (Some \<lparr>node_count = 2, link_count = 1, node_weights = Some [0.8, 0.8],
               link_weights = Some [0], adjacency_matrix = Some [0, 1, 1, 0]\<rparr>) = Inr (Some t)
      \<and> decode_tensor_to_hypergraph (Some t) (create_hypergraph 2 0) = Inr (0, Some hg2')
      \<and> adjacency_matrix hg2' = Some [0, 1, 1, 0])
   \<and> (\<exists>t hg2'. encode_hypergraph_to_tensor
        (Some \<lparr>node_count = 2, link_count = 1, node_weights = Some [0.5, 0.5],
               link_weights = Some [0], adjacency_matrix = Some [0, 1, 1, 0]\<rparr>) = Inr (Some t)
      \<and> decode_tensor_to_hypergraph (Some t) (create_hypergraph 2 0) = Inr (0, Some hg2')
      \<and> adjacency_matrix hg2' = Some [0, 0, 0, 0])"
proof -
  let ?hg = "\<lambda>w. \<lparr>node_count = 2, link_count = 1, node_weights = Some [w, w::real],
                   link_weights = Some [0::real], adjacency_matrix = Some [0, 1, 1, 0::int]\<rparr>"
  let ?hg2 = "\<lparr>node_count = 2, link_count = 0, node_weights = Some [0, 0::real],
               link_weights = Some ([]::real list), adjacency_matrix = Some [0, 0, 0, 0::int]\<rparr>"
  have fresh: "create_hypergraph 2 0 = Some ?hg2"
    by (simp add: create_hypergraph_def numeral_2_eq_2 numeral_eq_Suc)
  have wf: "wf_hypergraph (?hg w)" for w
    by (simp add: wf_hypergraph_def)
  have wf2: "wf_hypergraph ?hg2"
    by (simp add: wf_hypergraph_def)
  have small: "node_count (?hg w) * node_count (?hg w) < 2 ^ 31" for w
    by simp
  have cnt: "node_count ?hg2 = node_count (?hg w)"
    and adj: "adjacency_matrix (?hg w) = Some [0, 1, 1, 0]" and bits: "set [0, 1, 1, 0::int] \<subseteq> {0, 1}"
    and wts: "node_weights (?hg w) = Some (replicate (node_count (?hg w)) w)" for w
    by (simp_all add: numeral_2_eq_2)
  show ?thesis
    unfolding fresh
    using encode_decode_round_trip [OF wf wf2 cnt small adj bits wts, of "0.8"]
      encode_decode_round_trip [OF wf wf2 cnt small adj bits wts, of "0.5"]
    by (simp add: numeral_2_eq_2 numeral_eq_Suc)
qed

text \<open>
  Claim C1 says that the round trip reproduces the adjacency matrix of every
  hypergraph with 0/1 adjacency and equal node weights. \<^verbatim>\<open>create_hypergraph\<close> counts
  nodes in a \<^verbatim>\<open>size_t\<close>; \<^verbatim>\<open>encode_hypergraph_to_tensor\<close> converts the count to \<^verbatim>\<open>int\<close>,
  \<^verbatim>\<open>ggml_new_tensor_2d\<close> multiplies the two \<^verbatim>\<open>int\<close> extents, and the tensor that comes
  back is used without a test. For the hypergraph that
  \<^verbatim>\<open>create_hypergraph(46341, 0)\<close> makes (all adjacency entries \<open>0\<close>, all weights \<open>0\<close>)
  the product \<open>46341 * 46341 = 2147488281\<close> is above the largest \<^verbatim>\<open>int\<close>,
  \<open>2147483647\<close>: encoding overflows and no tensor is there to decode.
\<close>

theorem encode_hypergraph_to_tensor_overflow:
  "int_of_size_t 46341 * int_of_size_t 46341 = 2147488281
   \<and> \<not> int_in_range 2147488281
   \<and> encode_hypergraph_to_tensor (create_hypergraph 46341 0) = Inl Signed_Overflow"
  by (simp add: encode_hypergraph_to_tensor_def create_hypergraph_def
      ggml_new_tensor_2d_checked_def int_of_size_t_def int_in_range_def)

subsection \<open>Pattern matching by clipped correlation\<close>



subsection \<open>The attention tensor of a store\<close>




subsection \<open>Materialising a store from a tensor\<close>

text \<open>
  Claim C10. \<^verbatim>\<open>tensor_to_atomspace\<close> is destructive on the store. For a tensor
  with buffer \<open>xs\<close> and a store in use, it frees every atom of the store and
  then fills the store, from slot 0 on, with exactly one new atom for each cell
  whose value exceeds 0.01 among the first \<open>min (length xs) capacity\<close> cells, in
  the order of their indices. Afterwards \<open>count\<close> is the number of these atoms,
  the slots in use hold the new atoms and nothing else, and no slot that was in
  use before the call holds a live atom other than a new one.
\<close>

theorem tensor_to_atomspace_replaces_store:
  assumes "wf_tensor t" and "data t = Some xs" and "length xs < 2 ^ 64"
    and "wf_atomspace s" and "atoms s = Some arr"
    and "new = atoms_of_cells rnd xs (significant_cells xs (min (length xs) (capacity s)))"
  shows "\<exists>arr'. tensor_to_atomspace rnd (Some t) (Some s) =
                   Inr \<lparr>atoms = Some arr', count = length new, capacity = capacity s\<rparr>
           \<and> length arr' = capacity s
           \<and> take (length new) arr' = map Ptr new
           \<and> (\<forall>k a. k < count s \<and> arr' ! k = Ptr a \<longrightarrow> k < length new)"
proof -
  let ?m = "min (length xs) (capacity s)"
  let ?cells = "significant_cells xs ?m"
  define cleared where "cleared = map freed (take (count s) arr) @ drop (count s) arr"
  let ?arr' = "map Ptr new @ drop (length new) cleared"
  from assms(4,5) have arr: "length arr = capacity s" "count s \<le> capacity s"
    by (auto elim!: wf_atomspaceD)
  have ln: "length new = length ?cells"
    by (simp add: assms(6))
  have "length ?cells \<le> ?m" by (rule length_significant_cells)
  then have le: "length new \<le> capacity s" using ln by simp
  have lc: "length cleared = capacity s" using arr by (simp add: cleared_def)
  have run: "tensor_to_atomspace rnd (Some t) (Some s) =
               Inr (s\<lparr>atoms := Some ?arr', count := length new\<rparr>)"
    using tensor_to_atomspace_closed [OF assms(1-5) refl, of rnd]
    by (simp add: assms(6) cleared_def)
  have rec: "s\<lparr>atoms := Some ?arr', count := length new\<rparr> =
               \<lparr>atoms = Some ?arr', count = length new, capacity = capacity s\<rparr>"
    by (cases s) simp
  have len: "length ?arr' = capacity s"
    using le lc by simp
  have tk: "take (length new) ?arr' = map Ptr new"
    by simp
  have old: "k < length new" if k: "k < count s" and p: "?arr' ! k = Ptr a" for k a
  proof (rule ccontr)
    assume "\<not> k < length new"
    then have ge: "length new \<le> k" by simp
    have kl: "k < length arr" using k arr by simp
    have "?arr' ! k = cleared ! k"
      using ge le lc kl arr by (simp add: nth_append)
    also have "\<dots> = freed (arr ! k)"
      using k kl by (simp add: cleared_def nth_append)
    finally have "freed (arr ! k) = Ptr a" using p by simp
    then show False by (simp add: freed_not_Ptr)
  qed
  show ?thesis
    using run rec len tk old by (intro exI [of _ ?arr']) (simp only:, blast)
qed

theorem tensor_to_atomspace_replaces_store_witness:
  "\<exists>arr'. tensor_to_atomspace (\<lambda>k. 42)
       (Some \<lparr>ne0 = 1, ne1 = 3, ne2 = 1, ne3 = 1, data = Some [0.5, 0.001, 0.7], type = 0\<rparr>)
       (Some \<lparr>atoms = Some [Ptr (create_atom 5 1 None 0.3 0.4), Null,
                            Ptr (create_atom 6 1 None 0.2 0.4), Null],
              count = 3, capacity = 4\<rparr>)
     = Inr \<lparr>atoms = Some arr', count = 2, capacity = 4\<rparr>
   \<and> take 2 arr' =
       [Ptr \<lparr>atom_id = 42, atom_type = 1,
             truth_value = Some \<lparr>mean = 0.5, confidence = 0.8\<rparr>, name = Some ''concept_0''\<rparr>,
        Ptr \<lparr>atom_id = 42, atom_type = 1,
             truth_value = Some \<lparr>mean = 0.7, confidence = 0.8\<rparr>, name = Some ''concept_2''\<rparr>]"
proof -
  let ?t = "\<lparr>ne0 = 1, ne1 = 3, ne2 = 1, ne3 = 1, data = Some [0.5, 0.001, 0.7::real], type = 0\<rparr>"
  let ?arr = "[Ptr (create_atom 5 1 None 0.3 0.4), Null, Ptr (create_atom 6 1 None 0.2 0.4), Null]"
  let ?s = "\<lparr>atoms = Some ?arr, count = 3, capacity = 4\<rparr>"
  let ?new = "[create_atom 42 ATOM_TYPE_CONCEPT (Some (''concept_'' @ string_of_nat 0)) 0.5 0.8,
               create_atom 42 ATOM_TYPE_CONCEPT (Some (''concept_'' @ string_of_nat 2)) 0.7 0.8]"
  have wft: "wf_tensor ?t"
    by (simp add: wf_tensor_def)
  have wfs: "wf_atomspace ?s"
    by (simp add: wf_atomspace_def numeral_3_eq_3)
  have cells: "significant_cells [0.5, 0.001, 0.7] (min (length [0.5, 0.001, 0.7::real]) (capacity ?s))
                 = [0, 2]"
    by (simp add: significant_cells_def numeral_3_eq_3)
  have new: "?new = atoms_of_cells (\<lambda>k. 42) [0.5, 0.001, 0.7]
                      (significant_cells [0.5, 0.001, 0.7]
                         (min (length [0.5, 0.001, 0.7::real]) (capacity ?s)))"
    unfolding cells by (simp add: atoms_of_cells_def enumerate_Suc_eq)
  have names: "string_of_nat 0 = ''0''" "string_of_nat (Suc (Suc 0)) = ''2''"
    by code_simp+
  from tensor_to_atomspace_replaces_store [OF wft _ _ wfs _ new]
  obtain arr' where r: "tensor_to_atomspace (\<lambda>k. 42) (Some ?t) (Some ?s) =
                          Inr \<lparr>atoms = Some arr', count = length ?new, capacity = capacity ?s\<rparr>"
      "take (length ?new) arr' = map Ptr ?new"
    by auto
  then show ?thesis
    by (intro exI [of _ arr']) (simp add: create_atom_def ATOM_TYPE_CONCEPT_def names numeral_2_eq_2)
qed

subsection \<open>Exhausting the tensor memory pool\<close>

text \<open>
  Claim C9. Start from the pool as it is at program start and make
  \<open>TENSOR_POOL_SIZE + 1\<close> allocations, each of at most \<open>TENSOR_BLOCK_SIZE\<close> bytes,
  with a system allocator that does not fail. Then every call returns a
  tensor: the first \<open>TENSOR_POOL_SIZE\<close> calls hand out blocks of the pool, and
  the last call, with the pool exhausted, takes its buffer from the system
  allocator. After each call of the sequence the counters of the pool satisfy
  \<open>free_count + allocated_count = TENSOR_POOL_SIZE\<close>.
\<close>

theorem pool_exhaustion_falls_back:
  assumes "length reqs = Suc TENSOR_POOL_SIZE"
    and "\<forall>r\<in>set reqs. env_ok (fst r) \<and> 0 \<le> fst (snd r) * snd (snd r)
           \<and> fst (snd r) * snd (snd r) * 4 \<le> int TENSOR_BLOCK_SIZE"
  shows "\<exists>out. allocate_all tensor_pool_zero reqs = Inr out
           \<and> length out = Suc TENSOR_POOL_SIZE
           \<and> (\<forall>j<TENSOR_POOL_SIZE.
                 \<exists>t i. fst (out ! j) = Some t \<and> pt_data t = Some (Pool_Block i))
           \<and> (\<exists>t sz. fst (out ! TENSOR_POOL_SIZE) = Some t \<and> pt_data t = Some (System_Block sz))
           \<and> (\<forall>j\<le>TENSOR_POOL_SIZE.
                 free_count (snd (out ! j)) + allocated_count (snd (out ! j))
                   = int TENSOR_POOL_SIZE)"
proof -
  have start: "tensor_pool_zero = tensor_pool_zero \<and> (0::nat) = 0 \<or> pool_state tensor_pool_zero 0"
    by simp
  have "0 + length reqs \<le> Suc TENSOR_POOL_SIZE"
    using assms(1) by simp
  from allocate_all_run [OF start assms(2) this]
  obtain out where out: "allocate_all tensor_pool_zero reqs = Inr out" "length out = length reqs"
    and each: "\<And>j. j < length reqs \<Longrightarrow>
                 (0 + j < TENSOR_POOL_SIZE \<longrightarrow>
                    (\<exists>t i. fst (out ! j) = Some t \<and> pt_data t = Some (Pool_Block i)))
               \<and> (0 + j = TENSOR_POOL_SIZE \<longrightarrow>
                    (\<exists>t sz. fst (out ! j) = Some t \<and> pt_data t = Some (System_Block sz)))
               \<and> free_count (snd (out ! j)) + allocated_count (snd (out ! j))
                    = int TENSOR_POOL_SIZE"
    by blast
  have pooled: "\<exists>t i. fst (out ! j) = Some t \<and> pt_data t = Some (Pool_Block i)"
    if "j < TENSOR_POOL_SIZE" for j
    using each [of j] that assms(1) by simp
  have last: "\<exists>t sz. fst (out ! TENSOR_POOL_SIZE) = Some t \<and> pt_data t = Some (System_Block sz)"
    using each [of TENSOR_POOL_SIZE] assms(1) by simp
  have inv: "free_count (snd (out ! j)) + allocated_count (snd (out ! j)) = int TENSOR_POOL_SIZE"
    if "j \<le> TENSOR_POOL_SIZE" for j
    using each [of j] that assms(1) by simp
  show ?thesis
    using out assms(1) pooled last inv by (intro exI [of _ out]) simp
qed

theorem pool_exhaustion_falls_back_witness:
  "\<exists>out. allocate_all tensor_pool_zero
       (replicate (Suc TENSOR_POOL_SIZE)
          (\<lparr>init_ok = \<lambda>i. True, tensor_ok = True, fallback_ok = True\<rparr>, 8, 8)) = Inr out
     \<and> length out = Suc TENSOR_POOL_SIZE
     \<and> (\<exists>t i. fst (out ! 0) = Some t \<and> pt_data t = Some (Pool_Block i))
     \<and> (\<exists>t sz. fst (out ! TENSOR_POOL_SIZE) = Some t \<and> pt_data t = Some (System_Block sz))
     \<and> free_count (snd (out ! TENSOR_POOL_SIZE)) + allocated_count (snd (out ! TENSOR_POOL_SIZE))
         = int TENSOR_POOL_SIZE"
proof -
  let ?env = "\<lparr>init_ok = \<lambda>i. True, tensor_ok = True, fallback_ok = True\<rparr>"
  let ?reqs = "replicate (Suc TENSOR_POOL_SIZE) (?env, 8::int, 8::int)"
  have len: "length ?reqs = Suc TENSOR_POOL_SIZE"
    by simp
  have ok: "\<forall>r\<in>set ?reqs. env_ok (fst r) \<and> 0 \<le> fst (snd r) * snd (snd r)
              \<and> fst (snd r) * snd (snd r) * 4 \<le> int TENSOR_BLOCK_SIZE"
    by (simp add: env_ok_def list_all_iff TENSOR_BLOCK_SIZE_def)
  from pool_exhaustion_falls_back [OF len ok]
  obtain out where out: "allocate_all tensor_pool_zero ?reqs = Inr out"
      "length out = Suc TENSOR_POOL_SIZE"
      "\<forall>j<TENSOR_POOL_SIZE. \<exists>t i. fst (out ! j) = Some t \<and> pt_data t = Some (Pool_Block i)"
      "\<exists>t sz. fst (out ! TENSOR_POOL_SIZE) = Some t \<and> pt_data t = Some (System_Block sz)"
      "\<forall>j\<le>TENSOR_POOL_SIZE. free_count (snd (out ! j)) + allocated_count (snd (out ! j))
         = int TENSOR_POOL_SIZE"
    by blast
  from out(3) pool_size_pos
  have first: "\<exists>t i. fst (out ! 0) = Some t \<and> pt_data t = Some (Pool_Block i)"
    by blast
  from out(5) have "free_count (snd (out ! TENSOR_POOL_SIZE))
      + allocated_count (snd (out ! TENSOR_POOL_SIZE)) = int TENSOR_POOL_SIZE"
    by blast
  with out(1,2,4) first show ?thesis
    by blast
qed

end
